theory Spec2Isabelle
  imports Main "HOL-Library.AList"
begin

section \<open>The conversation tree of consolegpt\<close>

text \<open>
  The sources modelled: \<open>utils.ts\<close> (\<open>storage\<close>, \<open>createAtom\<close>),
  \<open>completionTaskStore.ts\<close> (\<open>chatCompletion\<close>, the task registry), \<open>settingsStore.ts\<close>
  and the \<open>Message\<close> component that \<open>main.tsx\<close> imports as \<open>./message\<close>
  (\<open>newMessageCompletion\<close>, the render, the layout effect and the handlers \<open>newBranch\<close>,
  \<open>editSelect\<close>, \<open>handleItemDelete\<close> with \<open>recDel\<close>, \<open>handleItemClick\<close>).

  State is passed explicitly: every function that writes takes the system state and
  returns the new one. A component's state and props are arguments of its handlers. What
  the generation service delivers, and what \<open>nanoid\<close> returns, are arguments as well.
  Subscribers of an atom are not modelled: a notification makes a component render again,
  and a render writes only through its layout effect, which is a function of its own.
\<close>

section \<open>JavaScript values used by the conversation tree\<close>

text \<open>
  A string is falsy in JavaScript exactly when it is undefined or empty; \<open>a || b\<close>
  yields \<open>a\<close> when \<open>a\<close> is truthy and \<open>b\<close> otherwise.
\<close>

definition truthy :: "string option \<Rightarrow> bool" where
  "truthy a = (case a of None \<Rightarrow> False | Some s \<Rightarrow> s \<noteq> [])"

definition js_or :: "string option \<Rightarrow> string option \<Rightarrow> string option" where
  "js_or a b = (if truthy a then a else b)"

text \<open>\<open>xs.indexOf(x)\<close>: the first position of \<open>x\<close>, or \<open>-1\<close>.\<close>

fun indexOf :: "string list \<Rightarrow> string \<Rightarrow> int" where
  "indexOf [] x = -1"
| "indexOf (y # ys) x =
     (if y = x then 0 else (let r = indexOf ys x in if r < 0 then -1 else r + 1))"

text \<open>\<open>xs[i]\<close>: undefined out of range (JavaScript does not raise).\<close>

definition js_nth :: "string list \<Rightarrow> int \<Rightarrow> string option" where
  "js_nth xs i = (if 0 \<le> i \<and> i < int (length xs) then Some (xs ! nat i) else None)"

section \<open>The data model (message.tsx, completionTaskStore.ts, settingsStore.ts)\<close>

datatype role = User | Assistant

text \<open>\<open>select?: string | null\<close>: absent, null, or a string.\<close>

datatype select_t = Undefined | Null | Sel string

record meta_t =
  model :: "string option"
  error :: "string option"

text \<open>
  \<open>MsgStore\<close>, as an object read back from storage: every field may be absent
  (\<open>storage.get\<close> yields \<open>{}\<close> for a missing key). The component also spreads the
  objects of \<open>childMsgs\<close>, which carry a \<open>task\<close> property, into what it stores;
  \<open>JSON.stringify\<close> keeps of a task object its \<open>id\<close> (the functions are dropped), so
  the field holds the task's id.
\<close>

record MsgStore =
  weight :: "int option"
  content :: "string option"
  messages :: "string list option"
  select :: select_t
  meta :: "meta_t option"
  role :: "role option"
  id_msg :: "string option"
  task :: "string option"

definition empty_msg :: MsgStore where
  "empty_msg = \<lparr> weight = None, content = None, messages = None, select = Undefined,
     meta = None, role = None, id_msg = None, task = None \<rparr>"

datatype chat_role = RUser | RAssistant | RDeveloper

record chat_msg =
  m_role :: chat_role
  m_content :: string

record ChatCompletionOptions =
  o_messages :: "chat_msg list option"
  o_model :: "string option"

record SettingsStore =
  s_model :: "string option"
  s_apiKey :: "string option"

text \<open>
  A task of the registry: its id, the address of its result atom and the address of its
  abort controller (\<open>abort: () => abortController.abort()\<close>).
\<close>

record CompletionTask =
  id_task :: string
  result :: nat
  abort :: nat

text \<open>A request issued to the generation service (\<open>openai.chat.completions.create\<close>).\<close>

record request =
  r_apiKey :: string
  r_model :: string
  r_messages :: "chat_msg list"

text \<open>
  The state the code reads and writes: \<open>localStorage\<close> (each value already parsed),
  the registry's atom value, the values of the result atoms by address, the log of abort
  controllers whose \<open>abort()\<close> was invoked (latest first) with the number of controllers
  created, and the requests issued so far.
\<close>

record sys =
  localStorage :: "(string \<times> MsgStore) list"
  tasks :: "CompletionTask list"
  atoms :: "string list"
  controllers :: nat
  aborts :: "nat list"
  requests :: "request list"

section \<open>utils.ts: storage\<close>

text \<open>
  \<open>storage\<close> keeps each record as the text \<open>JSON.stringify\<close> makes of it and reads it
  back with \<open>JSON.parse\<close>. These two are the platform's functions (ECMA-262), modelled
  here on JavaScript values whose numbers are integers and whose strings are lists of
  8-bit characters.
\<close>

datatype jsval =
    JUndefined | JNull | JBool bool | JNum int | JStr string
  | JArr "jsval list" | JObj "(string \<times> jsval) list"

text \<open>Integers are written in decimal, without leading zeros.\<close>

definition is_digit :: "char \<Rightarrow> bool" where
  "is_digit c = (48 \<le> (of_char c :: nat) \<and> (of_char c :: nat) \<le> 57)"

definition digit_char :: "nat \<Rightarrow> char" where
  "digit_char n = char_of (48 + n)"

definition digit_val :: "char \<Rightarrow> nat" where
  "digit_val c = (of_char c :: nat) - 48"

fun show_nat :: "nat \<Rightarrow> string" where
  "show_nat n = (if n < 10 then [digit_char n] else show_nat (n div 10) @ [digit_char (n mod 10)])"

declare show_nat.simps [simp del]

definition show_int :: "int \<Rightarrow> string" where
  "show_int i = (if i < 0 then CHR ''-'' # show_nat (nat (- i)) else show_nat (nat i))"

text \<open>
  A string is written between double quotes, with the double quote, the backslash and
  the control characters escaped: \<open>\b \f \n \r \t\<close>, else \<open>\u00XX\<close> in lower-case hex.
\<close>

definition hex_char :: "nat \<Rightarrow> char" where
  "hex_char n = (if n < 10 then char_of (48 + n) else char_of (87 + n))"

definition hex_val :: "char \<Rightarrow> nat option" where
  "hex_val c =
     (let n = of_char c :: nat in
      if 48 \<le> n \<and> n \<le> 57 then Some (n - 48)
      else if 97 \<le> n \<and> n \<le> 102 then Some (n - 87)
      else if 65 \<le> n \<and> n \<le> 70 then Some (n - 55)
      else None)"

definition escape_char :: "char \<Rightarrow> string" where
  "escape_char c =
     (if c = CHR 0x22 then [CHR 0x5C, CHR 0x22]
      else if c = CHR 0x5C then [CHR 0x5C, CHR 0x5C]
      else if c = CHR 0x08 then [CHR 0x5C, CHR ''b'']
      else if c = CHR 0x0C then [CHR 0x5C, CHR ''f'']
      else if c = CHR 0x0A then [CHR 0x5C, CHR ''n'']
      else if c = CHR 0x0D then [CHR 0x5C, CHR ''r'']
      else if c = CHR 0x09 then [CHR 0x5C, CHR ''t'']
      else if (of_char c :: nat) < 32
        then [CHR 0x5C, CHR ''u'', CHR ''0'', CHR ''0'',
              hex_char (of_char c div 16), hex_char (of_char c mod 16)]
      else [c])"

definition quote :: "string \<Rightarrow> string" where
  "quote s = CHR 0x22 # concat (map escape_char s) @ [CHR 0x22]"

text \<open>
  \<open>JSON.stringify\<close>: \<open>undefined\<close> has no text; in an array it is written \<open>null\<close>, in
  an object the property is left out.
\<close>

fun intercalate :: "string \<Rightarrow> string list \<Rightarrow> string" where
  "intercalate sep [] = []"
| "intercalate sep [x] = x"
| "intercalate sep (x # y # ys) = x @ sep @ intercalate sep (y # ys)"

fun stringify :: "jsval \<Rightarrow> string option" where
  "stringify JUndefined = None"
| "stringify JNull = Some ''null''"
| "stringify (JBool b) = Some (if b then ''true'' else ''false'')"
| "stringify (JNum n) = Some (show_int n)"
| "stringify (JStr s) = Some (quote s)"
| "stringify (JArr vs) =
     Some (''['' @ intercalate '','' (map (\<lambda>v. case stringify v of None \<Rightarrow> ''null'' | Some t \<Rightarrow> t) vs)
           @ '']'')"
| "stringify (JObj fs) =
     Some (''{'' @ intercalate '',''
                    (concat (map (\<lambda>(k, v). case stringify v of None \<Rightarrow> []
                                           | Some t \<Rightarrow> [quote k @ '':'' @ t]) fs))
           @ ''}'')"

text \<open>
  \<open>JSON.parse\<close>, on texts without white space and numbers without fraction or exponent
  (the texts \<open>JSON.stringify\<close> writes for the values above); \<open>None\<close> is its
  \<open>SyntaxError\<close>. \<open>unquote\<close> reads a string after its opening quote and yields it with
  the text after the closing quote. A raw control character is an error, and so is a
  \<open>\u\<close> escape beyond the 8-bit characters modelled.
\<close>

fun unquote :: "string \<Rightarrow> (string \<times> string) option" where
  "unquote [] = None"
| "unquote (c # cs) =
     (if c = CHR 0x22 then Some ([], cs)
      else if c = CHR 0x5C then
        (case cs of
           [] \<Rightarrow> None
         | e # r \<Rightarrow>
             if e = CHR ''u'' then
               (case r of
                  h1 # h2 # h3 # h4 # r' \<Rightarrow>
                    (case (hex_val h1, hex_val h2, hex_val h3, hex_val h4) of
                       (Some a, Some b, Some c', Some d) \<Rightarrow>
                         (let n = ((a * 16 + b) * 16 + c') * 16 + d in
                          if n < 256
                          then map_option (\<lambda>(s, t). (char_of n # s, t)) (unquote r')
                          else None)
                     | _ \<Rightarrow> None)
                | _ \<Rightarrow> None)
             else
               (case (if e = CHR 0x22 then Some (CHR 0x22)
                      else if e = CHR 0x5C then Some (CHR 0x5C)
                      else if e = CHR ''/'' then Some (CHR ''/'')
                      else if e = CHR ''b'' then Some (CHR 0x08)
                      else if e = CHR ''f'' then Some (CHR 0x0C)
                      else if e = CHR ''n'' then Some (CHR 0x0A)
                      else if e = CHR ''r'' then Some (CHR 0x0D)
                      else if e = CHR ''t'' then Some (CHR 0x09)
                      else None) of
                  None \<Rightarrow> None
                | Some x \<Rightarrow> map_option (\<lambda>(s, t). (x # s, t)) (unquote r)))
      else if (of_char c :: nat) < 32 then None
      else map_option (\<lambda>(s, t). (c # s, t)) (unquote cs))"

definition parse_nat :: "string \<Rightarrow> (nat \<times> string) option" where
  "parse_nat s =
     (let ds = takeWhile is_digit s in
      if ds = [] \<or> (hd ds = CHR ''0'' \<and> length ds > 1) then None
      else Some (foldl (\<lambda>a c. 10 * a + digit_val c) 0 ds, dropWhile is_digit s))"

definition parse_number :: "string \<Rightarrow> (jsval \<times> string) option" where
  "parse_number s =
     (case s of
        [] \<Rightarrow> None
      | c # cs \<Rightarrow>
          if c = CHR ''-'' then map_option (\<lambda>(n, r). (JNum (- int n), r)) (parse_nat cs)
          else map_option (\<lambda>(n, r). (JNum (int n), r)) (parse_nat s))"

definition expect :: "string \<Rightarrow> string \<Rightarrow> jsval \<Rightarrow> (jsval \<times> string) option" where
  "expect w s v = (if take (length w) s = w then Some (v, drop (length w) s) else None)"

text \<open>
  The recursive descent over values, array elements and object members. The first
  argument bounds the depth of the calls; \<open>parse\<close> gives one that is enough for the whole
  text (see \<open>parse_stringify\<close>). A repeated key keeps its first position and takes the
  last value, as in JavaScript. The whole text must be read.
\<close>

fun parse_value :: "nat \<Rightarrow> string \<Rightarrow> (jsval \<times> string) option"
  and parse_elems :: "nat \<Rightarrow> string \<Rightarrow> (jsval list \<times> string) option"
  and parse_members :: "nat \<Rightarrow> string \<Rightarrow> ((string \<times> jsval) list \<times> string) option" where
  "parse_value 0 s = None"
| "parse_value (Suc f) s =
     (case s of
        [] \<Rightarrow> None
      | c # cs \<Rightarrow>
          if c = CHR ''n'' then expect ''null'' s JNull
          else if c = CHR ''t'' then expect ''true'' s (JBool True)
          else if c = CHR ''f'' then expect ''false'' s (JBool False)
          else if c = CHR 0x22 then map_option (\<lambda>(x, r). (JStr x, r)) (unquote cs)
          else if c = CHR ''['' then
            (case cs of
               [] \<Rightarrow> None
             | d # r \<Rightarrow> if d = CHR '']'' then Some (JArr [], r)
                        else map_option (\<lambda>(vs, r). (JArr vs, r)) (parse_elems f cs))
          else if c = CHR ''{'' then
            (case cs of
               [] \<Rightarrow> None
             | d # r \<Rightarrow> if d = CHR ''}'' then Some (JObj [], r)
                        else map_option
                               (\<lambda>(ps, r). (JObj (foldl (\<lambda>acc (k, v). AList.update k v acc) [] ps), r))
                               (parse_members f cs))
          else parse_number s)"
| "parse_elems 0 s = None"
| "parse_elems (Suc f) s =
     (case parse_value f s of
        None \<Rightarrow> None
      | Some (v, r) \<Rightarrow>
          (case r of
             [] \<Rightarrow> None
           | d # r' \<Rightarrow>
               if d = CHR '','' then map_option (\<lambda>(vs, t). (v # vs, t)) (parse_elems f r')
               else if d = CHR '']'' then Some ([v], r')
               else None))"
| "parse_members 0 s = None"
| "parse_members (Suc f) s =
     (case s of
        [] \<Rightarrow> None
      | q # cs \<Rightarrow>
          if q \<noteq> CHR 0x22 then None
          else
            (case unquote cs of
               None \<Rightarrow> None
             | Some (k, r) \<Rightarrow>
                 (case r of
                    [] \<Rightarrow> None
                  | col # r1 \<Rightarrow>
                      if col \<noteq> CHR '':'' then None
                      else
                        (case parse_value f r1 of
                           None \<Rightarrow> None
                         | Some (v, r2) \<Rightarrow>
                             (case r2 of
                                [] \<Rightarrow> None
                              | d # r3 \<Rightarrow>
                                  if d = CHR '','' then
                                    map_option (\<lambda>(ps, t). ((k, v) # ps, t)) (parse_members f r3)
                                  else if d = CHR ''}'' then Some ([(k, v)], r3)
                                  else None)))))"

definition parse :: "string \<Rightarrow> jsval option" where
  "parse s =
     (case parse_value (2 * length s + 1) s of
        Some (v, []) \<Rightarrow> Some v
      | _ \<Rightarrow> None)"

text \<open>
  \<open>storage(key)\<close> of utils.ts over these texts, \<open>ls\<close> being \<open>localStorage\<close>:
  \<open>get: JSON.parse(localStorage?.getItem(key) || "{}")\<close> (a missing item and an empty one
  read as \<open>{}\<close>), \<open>set: localStorage?.setItem(key, JSON.stringify(data))\<close> (a value without
  text is stored as the string \<open>undefined\<close>), \<open>del: localStorage?.removeItem(key)\<close>.
\<close>

definition getItem_or :: "(string \<times> string) list \<Rightarrow> string \<Rightarrow> string" where
  "getItem_or ls key = the (js_or (map_of ls key) (Some ''{}''))"

definition storage_get_text :: "string \<Rightarrow> (string \<times> string) list \<Rightarrow> jsval option" where
  "storage_get_text key ls = parse (getItem_or ls key)"

definition storage_set_text ::
  "string \<Rightarrow> jsval \<Rightarrow> (string \<times> string) list \<Rightarrow> (string \<times> string) list" where
  "storage_set_text key data ls =
     AList.update key (case stringify data of None \<Rightarrow> ''undefined'' | Some t \<Rightarrow> t) ls"

definition storage_del_text :: "string \<Rightarrow> (string \<times> string) list \<Rightarrow> (string \<times> string) list" where
  "storage_del_text key ls = AList.delete key ls"

text \<open>
  From here on \<open>localStorage\<close> is taken with each text already parsed into the record it
  stands for; the last section shows that a record is read back as it was written.
\<close>

definition storage_get :: "(string \<times> MsgStore) list \<Rightarrow> string \<Rightarrow> MsgStore" where
  "storage_get ls key = (case map_of ls key of None \<Rightarrow> empty_msg | Some r \<Rightarrow> r)"

definition storage_set :: "string \<Rightarrow> MsgStore \<Rightarrow> sys \<Rightarrow> sys" where
  "storage_set key data s = s\<lparr> localStorage := AList.update key data (localStorage s) \<rparr>"

definition removeItem :: "string \<Rightarrow> sys \<Rightarrow> sys" where
  "removeItem key s = s\<lparr> localStorage := AList.delete key (localStorage s) \<rparr>"

section \<open>message.tsx: what a render of \<open>Message\<close> computes\<close>

text \<open>
  A \<open>Message\<close> component has the prop \<open>id\<close> and the state \<open>parentMsg\<close>, the record of
  \<open>id\<close> as \<open>refresh\<close> last read it. Its handlers are closures over that snapshot and
  over \<open>childMsgs\<close>, computed from storage and the registry when it rendered.
\<close>

definition find_task :: "CompletionTask list \<Rightarrow> string \<Rightarrow> CompletionTask option" where
  "find_task ts i = find (\<lambda>t. id_task t = i) ts"

definition childMsgs :: "MsgStore \<Rightarrow> sys \<Rightarrow> MsgStore list" where
  "childMsgs parentMsg s =
     (case messages parentMsg of
        None \<Rightarrow> []
      | Some ms \<Rightarrow>
          map (\<lambda>i. (storage_get (localStorage s) i)
                 \<lparr> task := map_option id_task (find_task (tasks s) i) \<rparr>) ms)"

text \<open>\<open>childMsgs.reduce((p, c) => p + 1 + (c.weight || 0), 0)\<close>\<close>

definition weight_of :: "MsgStore list \<Rightarrow> int" where
  "weight_of cs = foldl (\<lambda>p c. p + 1 + (case weight c of None \<Rightarrow> 0 | Some w \<Rightarrow> w)) 0 cs"

text \<open>\<open>msg.id === parentMsg.select\<close>: undefined equals undefined, null equals no id.\<close>

definition id_is_select :: "string option \<Rightarrow> select_t \<Rightarrow> bool" where
  "id_is_select i sl =
     (case (i, sl) of
        (None, Undefined) \<Rightarrow> True
      | (Some a, Sel b) \<Rightarrow> a = b
      | _ \<Rightarrow> False)"

definition selectedMsg :: "MsgStore \<Rightarrow> MsgStore list \<Rightarrow> MsgStore option" where
  "selectedMsg parentMsg cs = find (\<lambda>m. id_is_select (id_msg m) (select parentMsg)) cs"

definition defaultChildRole :: "MsgStore \<Rightarrow> role" where
  "defaultChildRole parentMsg = (if role parentMsg = Some User then Assistant else User)"

text \<open>
  The layout effect that follows every render. It is a closure over the render's
  \<open>parentMsg\<close> and over \<open>weight\<close>, which the render computed from its \<open>childMsgs\<close>:
  when that weight differs from the snapshot's, the snapshot is stored with it. The
  effect runs in the state it finds, after the layout effects of the components below.
\<close>

definition layoutEffect :: "string \<Rightarrow> MsgStore \<Rightarrow> MsgStore list \<Rightarrow> sys \<Rightarrow> sys" where
  "layoutEffect i parentMsg cs s =
     (let w = weight_of cs in
      if Some w \<noteq> weight parentMsg
      then storage_set i (parentMsg\<lparr> weight := Some w \<rparr>) s
      else s)"

section \<open>message.tsx: selection and cascading delete\<close>

definition handleItemClick :: "string \<Rightarrow> MsgStore \<Rightarrow> string \<Rightarrow> sys \<Rightarrow> sys" where
  "handleItemClick i parentMsg msgId s = storage_set i (parentMsg\<lparr> select := Sel msgId \<rparr>) s"

text \<open>
  A task's \<open>abort\<close> capability calls \<open>abort()\<close> on its controller, which the state
  logs. What the request does once its signal is aborted is decided by the client, not
  here: it shows in the events the request delivers afterwards. \<open>recDel\<close> invokes the
  capability on the first task of the registry with the id:
  \<open>completionTaskStore.get().find((task) => task.id === _id)?.abort()\<close>.
\<close>

definition invoke_abort :: "CompletionTask \<Rightarrow> sys \<Rightarrow> sys" where
  "invoke_abort t s = s\<lparr> aborts := abort t # aborts s \<rparr>"

definition abort_found :: "string \<Rightarrow> sys \<Rightarrow> sys" where
  "abort_found i s =
     (case find_task (tasks s) i of
        None \<Rightarrow> s
      | Some t \<Rightarrow> invoke_abort t s)"

text \<open>
  \<open>recDel\<close> calls itself for each child inside a \<open>for\<close> loop. The list argument is its
  call stack: the ids whose call is still to run, in the order the calls are made.
  A call on \<open>_id\<close> reads the children, removes the record and aborts the task found;
  without a \<open>messages\<close> field it returns, otherwise the children's calls come next.
\<close>

function recDel :: "string list \<Rightarrow> sys \<Rightarrow> sys" where
  "recDel [] s = s"
| "recDel (i # pending) s =
     (let ms = messages (storage_get (localStorage s) i);
          s1 = abort_found i (removeItem i s)
      in case ms of
           None \<Rightarrow> recDel pending s1
         | Some cs \<Rightarrow> recDel (cs @ pending) s1)"
  by pat_completeness auto

lemma storage_get_messages_key:
  "messages (storage_get ls i) = Some cs \<Longrightarrow> i \<in> fst ` set ls"
  by (auto simp: storage_get_def empty_msg_def split: option.splits
        dest!: map_of_SomeD intro: rev_image_eqI)

lemma length_delete_less:
  "i \<in> fst ` set ls \<Longrightarrow> length (AList.delete i ls) < length ls"
proof (induction ls)
  case Nil
  then show ?case by simp
next
  case (Cons a ls)
  show ?case
  proof (cases "fst a = i")
    case True
    then show ?thesis
      using AList.length_delete_le [of i ls] by (cases a) simp
  next
    case False
    with Cons.prems have "i \<in> fst ` set ls" by auto
    with Cons.IH False show ?thesis by (cases a) simp
  qed
qed

termination recDel
proof (relation "measures [\<lambda>(p, s). length (localStorage s), \<lambda>(p, s). length p]")
  show "wf (measures [\<lambda>(p, s). length (localStorage s), \<lambda>(p, s). length p])"
    by simp
next
  fix i pending s ms s1
  assume "ms = messages (storage_get (localStorage s) i)"
    and "s1 = abort_found i (removeItem i s)" and "ms = None"
  then show "((pending, s1), (i # pending, s))
      \<in> measures [\<lambda>(p, s). length (localStorage s), \<lambda>(p, s). length p]"
    using AList.length_delete_le [of i "localStorage s"]
    by (auto simp: abort_found_def invoke_abort_def removeItem_def split: option.splits)
next
  fix i pending s ms s1 cs
  assume "ms = messages (storage_get (localStorage s) i)"
    and "s1 = abort_found i (removeItem i s)" and "ms = Some cs"
  then show "((cs @ pending, s1), (i # pending, s))
      \<in> measures [\<lambda>(p, s). length (localStorage s), \<lambda>(p, s). length p]"
    using length_delete_less [OF storage_get_messages_key, of "localStorage s" i cs]
    by (auto simp: abort_found_def invoke_abort_def removeItem_def split: option.splits)
qed

text \<open>\<open>newMsgs[deletedChatIndex] || newMsgs[0] || null\<close>\<close>

definition newSelected_of :: "string list \<Rightarrow> int \<Rightarrow> select_t" where
  "newSelected_of newMsgs deletedChatIndex =
     (case js_or (js_nth newMsgs deletedChatIndex) (js_nth newMsgs 0) of
        None \<Rightarrow> Null
      | Some m \<Rightarrow> if m = [] then Null else Sel m)"

definition handleItemDelete :: "string \<Rightarrow> MsgStore \<Rightarrow> string \<Rightarrow> sys \<Rightarrow> sys" where
  "handleItemDelete i parentMsg msgId s =
     (let msgs = (case messages parentMsg of None \<Rightarrow> [] | Some ms \<Rightarrow> ms);
          deletedChatIndex = indexOf msgs msgId;
          newMsgs = filter (\<lambda>m. m \<noteq> msgId) msgs;
          newSelected =
            (if select parentMsg = Sel msgId
             then newSelected_of newMsgs deletedChatIndex
             else select parentMsg);
          s1 = storage_set i (parentMsg\<lparr> select := newSelected, messages := Some newMsgs \<rparr>) s
      in recDel [msgId] s1)"

section \<open>completionTaskStore.ts\<close>

text \<open>An error value: its \<open>name\<close>, its \<open>message\<close> and what \<open>JSON.stringify\<close> makes of it.\<close>

record error_t =
  e_name :: string
  e_message :: string
  e_json :: string

text \<open>\<open>new Error("API key is required")\<close>; an \<open>Error\<close> has no enumerable property.\<close>

definition api_key_error :: error_t where
  "api_key_error = \<lparr> e_name = ''Error'', e_message = ''API key is required'', e_json = ''{}'' \<rparr>"

record newTaskProps =
  p_id :: string
  p_apiKey :: "string option"
  p_opts :: ChatCompletionOptions
  p_onText :: "(string \<Rightarrow> sys \<Rightarrow> sys) option"
  p_onDone :: "(string \<Rightarrow> sys \<Rightarrow> sys) option"
  p_onError :: "(error_t \<Rightarrow> sys \<Rightarrow> sys) option"

text \<open>
  What the promise returned by \<open>chatCompletion\<close> is once its executor has run: rejected
  at once, or waiting for the service.
\<close>

datatype promise = Rejected error_t | Pending

text \<open>
  The environment of the handlers \<open>newTask\<close> attaches to that promise: the props, the
  address of the result atom, and the promise.
\<close>

record running =
  props :: newTaskProps
  atom :: nat
  started :: promise

text \<open>
  The executor of \<open>chatCompletion\<close>: without an API key it rejects and returns; with one
  it issues the request (\<open>model: opts.model || "gpt-4o"\<close>, \<open>messages: opts.messages || []\<close>).
\<close>

definition chatCompletion :: "ChatCompletionOptions \<Rightarrow> string option \<Rightarrow> sys \<Rightarrow> promise \<times> sys" where
  "chatCompletion opts apiKey s =
     (if \<not> truthy apiKey then (Rejected api_key_error, s)
      else (Pending,
            s\<lparr> requests := requests s @
                 [\<lparr> r_apiKey = the apiKey,
                    r_model = the (js_or (o_model opts) (Some ''gpt-4o'')),
                    r_messages = (case o_messages opts of None \<Rightarrow> [] | Some ms \<Rightarrow> ms) \<rparr>] \<rparr>))"

definition storeTask :: "CompletionTask \<Rightarrow> sys \<Rightarrow> sys" where
  "storeTask t s = s\<lparr> tasks := tasks s @ [t] \<rparr>"

definition removeTask :: "string \<Rightarrow> sys \<Rightarrow> sys" where
  "removeTask i s = s\<lparr> tasks := filter (\<lambda>t. id_task t \<noteq> i) (tasks s) \<rparr>"

text \<open>\<open>result.set(() => text)\<close> on the atom at an address.\<close>

definition atom_set :: "nat \<Rightarrow> string \<Rightarrow> sys \<Rightarrow> sys" where
  "atom_set a text s = s\<lparr> atoms := (atoms s)[a := text] \<rparr>"

definition call :: "('a \<Rightarrow> sys \<Rightarrow> sys) option \<Rightarrow> 'a \<Rightarrow> sys \<Rightarrow> sys" where
  "call f x s = (case f of None \<Rightarrow> s | Some g \<Rightarrow> g x s)"

text \<open>
  The synchronous part of \<open>newTask\<close>: a fresh result atom holding \<open>""\<close>, a fresh abort
  controller, the call of \<open>chatCompletion\<close>, and \<open>storeTask\<close>. The handlers attached
  with \<open>then\<close> and \<open>catch\<close> run later, also when the promise is rejected already.
\<close>

definition newTask :: "newTaskProps \<Rightarrow> sys \<Rightarrow> running \<times> sys" where
  "newTask p s =
     (let a = length (atoms s);
          s1 = s\<lparr> atoms := atoms s @ [''''] \<rparr>;
          c = controllers s1;
          s2 = s1\<lparr> controllers := c + 1 \<rparr>;
          (pr, s3) = chatCompletion (p_opts p) (p_apiKey p) s2;
          s4 = storeTask \<lparr> id_task = p_id p, result = a, abort = c \<rparr> s3
      in (\<lparr> props = p, atom = a, started = pr \<rparr>, s4))"

text \<open>The \<open>then\<close> handler and the \<open>catch\<close> handler of \<open>newTask\<close>.\<close>

definition on_resolved :: "running \<Rightarrow> string \<Rightarrow> sys \<Rightarrow> sys" where
  "on_resolved r text s =
     removeTask (p_id (props r)) (call (p_onDone (props r)) text (atom_set (atom r) text s))"

definition on_rejected :: "running \<Rightarrow> error_t \<Rightarrow> sys \<Rightarrow> sys" where
  "on_rejected r e s =
     removeTask (p_id (props r))
       (call (p_onError (props r)) e (atom_set (atom r) (atoms s ! atom r) s))"

text \<open>
  What the service and its client deliver to \<open>chatCompletion\<close>: a chunk with its
  \<open>delta.content\<close>, the end of the stream, or a thrown error.
\<close>

datatype event = Chunk "string option" | End | Throw error_t

text \<open>
  One chunk of the \<open>for await\<close> loop, on the text accumulated so far:
  \<open>content = ... || ""; if (content) { result += content; onText(result) }\<close>, where
  \<open>onText\<close> is \<open>newTask\<close>'s: it sets the result atom, then calls the props' \<open>onText\<close>.
\<close>

definition on_chunk :: "running \<Rightarrow> string option \<Rightarrow> string \<times> sys \<Rightarrow> string \<times> sys" where
  "on_chunk r d = (\<lambda>(acc, s).
     (let content' = the (js_or d (Some '''')) in
      if content' \<noteq> []
      then (acc @ content',
            call (p_onText (props r)) (acc @ content') (atom_set (atom r) (acc @ content') s))
      else (acc, s)))"

text \<open>
  The stream of a pending request, from the text accumulated so far. The loop ending
  resolves with that text; a thrown error named \<open>AbortError\<close> resolves with \<open>""\<close>, any
  other rejects. With no event left the request still waits.
\<close>

fun stream :: "running \<Rightarrow> event list \<Rightarrow> string \<times> sys \<Rightarrow> sys" where
  "stream r [] (acc, s) = s"
| "stream r (Chunk d # evs) (acc, s) = stream r evs (on_chunk r d (acc, s))"
| "stream r (End # evs) (acc, s) = on_resolved r acc s"
| "stream r (Throw e # evs) (acc, s) =
     (if e_name e = ''AbortError'' then on_resolved r [] s else on_rejected r e s)"

text \<open>The whole asynchronous part of a task, given what the service delivers.\<close>

definition settle :: "running \<Rightarrow> event list \<Rightarrow> sys \<Rightarrow> sys" where
  "settle r evs s =
     (case started r of
        Rejected e \<Rightarrow> on_rejected r e s
      | Pending \<Rightarrow> stream r evs ([], s))"

section \<open>message.tsx: starting a generation, branch creation, edit\<close>

definition newMessageCompletion ::
  "string \<Rightarrow> chat_msg list \<Rightarrow> SettingsStore \<Rightarrow> sys \<Rightarrow> running \<times> sys" where
  "newMessageCompletion msgId msgs settings s =
     (let msg = (storage_get (localStorage s) msgId)
                  \<lparr> meta := Some \<lparr> model = s_model settings, error = None \<rparr> \<rparr>;
          s1 = storage_set msgId msg s
      in newTask
           \<lparr> p_id = msgId,
             p_apiKey = s_apiKey settings,
             p_opts = \<lparr> o_messages = Some msgs, o_model = s_model settings \<rparr>,
             p_onText = Some (\<lambda>text.
               storage_set msgId
                 (msg\<lparr> content := Some (the (js_or (content msg) (Some '''')) @ text @ '' '') \<rparr>)),
             p_onDone = None,
             p_onError = Some (\<lambda>e s'.
               (let freshMsg = storage_get (localStorage s') msgId in
                storage_set msgId
                  (freshMsg\<lparr> meta := Some
                     ((case meta freshMsg of None \<Rightarrow> \<lparr> model = None, error = None \<rparr> | Some m \<Rightarrow> m)
                        \<lparr> error := Some (e_json e) \<rparr>) \<rparr>) s')) \<rparr>
           s1)"

record branch_opts =
  b_content :: "string option"
  b_fillContent :: bool
  b_addAnswer :: bool

definition chat_role_of :: "role \<Rightarrow> chat_role" where
  "chat_role_of r = (case r of User \<Rightarrow> RUser | Assistant \<Rightarrow> RAssistant)"

text \<open>
  \<open>newBranch\<close>, in the component of \<open>i\<close> with the snapshot \<open>parentMsg\<close>, the prop
  \<open>initialContent\<close> and the selected child \<open>sel\<close> of its last render. \<open>n1\<close> and \<open>n2\<close>
  are what the two calls of \<open>nanoid(4)\<close> return. The result lists the tasks started.
\<close>

definition newBranch ::
  "string \<Rightarrow> MsgStore \<Rightarrow> chat_msg list \<Rightarrow> MsgStore option \<Rightarrow> SettingsStore \<Rightarrow> string \<Rightarrow> string
     \<Rightarrow> branch_opts \<Rightarrow> sys \<Rightarrow> running list \<times> sys" where
  "newBranch i parentMsg initialContent sel settings n1 n2 b s =
     (let msgId = CHR ''#'' # n1;
          r0 = (case (case sel of None \<Rightarrow> None | Some m \<Rightarrow> role m) of
                  None \<Rightarrow> defaultChildRole parentMsg
                | Some r \<Rightarrow> r);
          msg0 = empty_msg\<lparr> id_msg := Some msgId, role := Some r0, content := b_content b \<rparr>;
          (msg, rs1, s2) =
            (if b_addAnswer b \<and> truthy (b_content b) \<and> r0 = User
             then
               (let childMsgId = CHR ''#'' # n2;
                    s1 = storage_set childMsgId
                           (empty_msg\<lparr> id_msg := Some childMsgId, role := Some Assistant \<rparr>) s;
                    (r, s2) = newMessageCompletion childMsgId
                                (initialContent @
                                   [\<lparr> m_role = chat_role_of r0, m_content = the (b_content b) \<rparr>])
                                settings s1
                in (msg0\<lparr> messages := Some [childMsgId], select := Sel childMsgId \<rparr>, [r], s2))
             else (msg0, [], s));
          s3 = storage_set msgId msg s2;
          (rs2, s4) =
            (if b_fillContent b \<and> \<not> b_addAnswer b \<and> role msg = Some Assistant
             then (let (r, s4) = newMessageCompletion msgId initialContent settings s3
                   in ([r], s4))
             else ([], s3));
          s5 = storage_set i
                 (parentMsg\<lparr> messages :=
                      Some (msgId # (case messages parentMsg of None \<Rightarrow> [] | Some ms \<Rightarrow> ms)),
                    select := Sel msgId \<rparr>) s4
      in (rs1 @ rs2, s5))"

text \<open>
  \<open>editSelect\<close> stores the selected child of the last render with the new content, under
  the child's \<open>id\<close> field (\<open>undefined\<close> as a storage key is the string \<open>"undefined"\<close>).
\<close>

definition key_of :: "string option \<Rightarrow> string" where
  "key_of i = (case i of None \<Rightarrow> ''undefined'' | Some k \<Rightarrow> k)"

definition editSelect :: "MsgStore option \<Rightarrow> string \<Rightarrow> sys \<Rightarrow> sys" where
  "editSelect sel content' s =
     (case sel of
        None \<Rightarrow> s
      | Some m \<Rightarrow> storage_set (key_of (id_msg m)) (m\<lparr> content := Some content' \<rparr>) s)"

text \<open>\<open>refresh\<close>: the snapshot a component takes of its own record.\<close>

definition refresh :: "string \<Rightarrow> sys \<Rightarrow> MsgStore" where
  "refresh i s = storage_get (localStorage s) i"

text \<open>The state of a fresh page: nothing stored, no task.\<close>

definition init_sys :: sys where
  "init_sys = \<lparr> localStorage = [], tasks = [], atoms = [], controllers = 0, aborts = [],
     requests = [] \<rparr>"

section \<open>Concrete inputs\<close>

text \<open>Settings with and without an API key, and props of a task without callbacks.\<close>

definition settings_key :: SettingsStore where
  "settings_key = \<lparr> s_model = Some ''gpt-4o'', s_apiKey = Some ''sk-1'' \<rparr>"

definition settings_nokey :: SettingsStore where
  "settings_nokey = \<lparr> s_model = Some ''gpt-4o'', s_apiKey = None \<rparr>"

definition bare_props :: "string \<Rightarrow> newTaskProps" where
  "bare_props i = \<lparr> p_id = i, p_apiKey = Some ''sk-1'',
     p_opts = \<lparr> o_messages = None, o_model = None \<rparr>,
     p_onText = None, p_onDone = None, p_onError = None \<rparr>"



text \<open>The root's \<open>initialContent\<close> (main.tsx) and the options of a "send" of \<open>hi\<close>.\<close>

definition root_initialContent :: "chat_msg list" where
  "root_initialContent = [\<lparr> m_role = RDeveloper,
     m_content = ''Format rules: Use ```lang notation if you need to display code'' \<rparr>]"

definition send_hi :: branch_opts where
  "send_hi = \<lparr> b_content = Some ''hi'', b_fillContent = False, b_addAnswer = True \<rparr>"

text \<open>
  The scenario of the root \<open>#0000\<close> on a fresh page. \<open>mounted\<close>: the root component has
  rendered and run its layout effect. \<open>branched\<close>: its \<open>newBranch\<close> with content \<open>hi\<close> and
  \<open>addAnswer\<close> has returned (\<open>nanoid\<close> gave \<open>uuuu\<close>, then \<open>aaaa\<close>). \<open>rendered\<close>: the renders
  that \<open>refresh\<close> and \<open>onWeightChange\<close> trigger have run their layout effects, a child's
  before its parent's: the root and the component of the user node render on the state
  \<open>newBranch\<close> left and their effects run (\<open>uuuu_effect\<close>, then \<open>committed\<close>), then both
  render again on the state those effects left. \<open>streaming ds\<close>: the chunks \<open>ds\<close> have arrived, with the text accumulated.
  \<open>answered ds\<close>: the stream has ended after them. \<open>aborted ds\<close>: after them the
  task's abort capability was invoked; how the request ends then is the client's doing.
\<close>

definition mounted :: sys where
  "mounted =
     (let p = refresh ''#0000'' init_sys
      in layoutEffect ''#0000'' p (childMsgs p init_sys) init_sys)"

definition branched :: "running list \<times> sys" where
  "branched =
     (let p = refresh ''#0000'' mounted
      in newBranch ''#0000'' p root_initialContent (selectedMsg p (childMsgs p mounted))
           settings_key ''uuuu'' ''aaaa'' send_hi mounted)"

definition uuuu_effect :: sys where
  "uuuu_effect =
     (let s0 = snd branched; pu = refresh ''#uuuu'' s0
      in layoutEffect ''#uuuu'' pu (childMsgs pu s0) s0)"

definition committed :: sys where
  "committed =
     (let s0 = snd branched; p0 = refresh ''#0000'' s0
      in layoutEffect ''#0000'' p0 (childMsgs p0 s0) uuuu_effect)"

definition rendered :: sys where
  "rendered =
     (let s2 = committed;
          p0 = refresh ''#0000'' s2;
          pu = refresh ''#uuuu'' s2;
          s3 = layoutEffect ''#uuuu'' pu (childMsgs pu s2) s2
      in layoutEffect ''#0000'' p0 (childMsgs p0 s2) s3)"

definition streaming :: "string option list \<Rightarrow> string \<times> sys" where
  "streaming ds = fold (on_chunk (hd (fst branched))) ds ([], rendered)"

definition answered :: "string option list \<Rightarrow> sys" where
  "answered ds = settle (hd (fst branched)) (map Chunk ds @ [End]) rendered"




text \<open>
  Two branches under the root: two sends without an answer (\<open>nanoid\<close> gave \<open>aaaa\<close>, then
  \<open>bbbb\<close>), each followed by the root's layout effect. The newer branch is first and
  selected.
\<close>

definition send_plain :: "string \<Rightarrow> branch_opts" where
  "send_plain c = \<lparr> b_content = Some c, b_fillContent = False, b_addAnswer = False \<rparr>"

definition two_branches :: sys where
  "two_branches =
     (let p0 = refresh ''#0000'' mounted;
          s1 = snd (newBranch ''#0000'' p0 root_initialContent
                      (selectedMsg p0 (childMsgs p0 mounted)) settings_key ''aaaa'' ''xxxx''
                      (send_plain ''one'') mounted);
          p1 = refresh ''#0000'' s1;
          s2 = layoutEffect ''#0000'' p1 (childMsgs p1 s1) s1;
          p2 = refresh ''#0000'' s2;
          s3 = snd (newBranch ''#0000'' p2 root_initialContent
                      (selectedMsg p2 (childMsgs p2 s2)) settings_key ''bbbb'' ''yyyy''
                      (send_plain ''two'') s2);
          p3 = refresh ''#0000'' s3
      in layoutEffect ''#0000'' p3 (childMsgs p3 s3) s3)"

text \<open>
  The scenario continued after the answer \<open>hello\<close>. \<open>settled\<close>: the component of the
  answer, displayed now that its task is gone, has run its layout effect. \<open>rolled\<close>: the
  component of the user node has run \<open>newBranch\<close> with \<open>fillContent\<close> ("roll another response"; \<open>nanoid\<close> gave
  \<open>bbbb\<close>). \<open>rerendered\<close>: the layout effects of that component and then of the root have
  run, the root having rendered on \<open>onWeightChange\<close>; \<open>root_selected\<close> is the selected
  child of that render of the root. \<open>clicked\<close>: in the user node's component the older
  answer is clicked; nothing makes the root render again. \<open>saved\<close>: the root's
  \<open>editSelect\<close> then runs, with the selected child of its last render.
\<close>

definition roll :: branch_opts where
  "roll = \<lparr> b_content = None, b_fillContent = True, b_addAnswer = False \<rparr>"

definition settled :: sys where
  "settled =
     (let s = answered [Some ''hello'']; p = refresh ''#aaaa'' s
      in layoutEffect ''#aaaa'' p (childMsgs p s) s)"

definition rolled :: "running list \<times> sys" where
  "rolled =
     (let s = settled; p = refresh ''#uuuu'' s
      in newBranch ''#uuuu'' p (root_initialContent @ [\<lparr> m_role = RUser, m_content = ''hi'' \<rparr>])
           (selectedMsg p (childMsgs p s)) settings_key ''bbbb'' ''cccc'' roll s)"

definition rerendered :: sys where
  "rerendered =
     (let pu = refresh ''#uuuu'' (snd rolled);
          s1 = layoutEffect ''#uuuu'' pu (childMsgs pu (snd rolled)) (snd rolled);
          p0 = refresh ''#0000'' s1
      in layoutEffect ''#0000'' p0 (childMsgs p0 s1) s1)"

definition root_selected :: "MsgStore option" where
  "root_selected =
     (let p = refresh ''#0000'' rerendered in selectedMsg p (childMsgs p rerendered))"

definition clicked :: sys where
  "clicked = handleItemClick ''#uuuu'' (refresh ''#uuuu'' rerendered) ''#aaaa'' rerendered"

definition saved :: sys where
  "saved = editSelect root_selected ''hi there'' clicked"

text \<open>The record of the user node once the scenario has rendered.\<close>

definition user_record :: MsgStore where
  "user_record = empty_msg\<lparr> weight := Some 1, content := Some ''hi'',
     messages := Some [''#aaaa''], select := Sel ''#aaaa'', role := Some User,
     id_msg := Some ''#uuuu'' \<rparr>"

section \<open>Notions the properties are stated with\<close>

text \<open>The text a chunk contributes (\<open>delta.content || ""\<close>), and that of a list of chunks.\<close>

definition delta :: "string option \<Rightarrow> string" where
  "delta d = the (js_or d (Some []))"

definition deltas :: "string option list \<Rightarrow> string" where
  "deltas ds = concat (map delta ds)"

text \<open>
  The record \<open>newMessageCompletion\<close> stores and keeps as \<open>msg\<close>, and the state after a chunk
  of a task it started has been handled with the cumulative text \<open>text\<close>.
\<close>

definition task_msg :: "string \<Rightarrow> SettingsStore \<Rightarrow> sys \<Rightarrow> MsgStore" where
  "task_msg msgId settings s0 =
     (storage_get (localStorage s0) msgId)
       \<lparr> meta := Some \<lparr> model = s_model settings, error = None \<rparr> \<rparr>"

definition streamed :: "string \<Rightarrow> SettingsStore \<Rightarrow> sys \<Rightarrow> string \<Rightarrow> sys \<Rightarrow> sys" where
  "streamed msgId settings s0 text s =
     storage_set msgId
       ((task_msg msgId settings s0)
          \<lparr> content := Some (the (js_or (content (task_msg msgId settings s0)) (Some []))
                               @ text @ '' '') \<rparr>)
       (atom_set (length (atoms s0)) text s)"

text \<open>The placeholder of the answer as \<open>newBranch\<close> first stores it in the scenario.\<close>

definition placed :: sys where
  "placed = storage_set ''#aaaa''
     (empty_msg\<lparr> id_msg := Some ''#aaaa'', role := Some Assistant \<rparr>) mounted"

text \<open>
  The children chains of the store: the children of a node are the \<open>messages\<close> of its
  record (none without a record or without the field); its descendants are what these
  chains reach from it, the node included.
\<close>

definition children_of :: "(string \<times> MsgStore) list \<Rightarrow> string \<Rightarrow> string list" where
  "children_of ls i = (case messages (storage_get ls i) of None \<Rightarrow> [] | Some ms \<Rightarrow> ms)"

definition edges :: "(string \<times> MsgStore) list \<Rightarrow> (string \<times> string) set" where
  "edges ls = {(a, b). b \<in> set (children_of ls a)}"

definition descendants :: "(string \<times> MsgStore) list \<Rightarrow> string \<Rightarrow> string set" where
  "descendants ls a = {k. (a, k) \<in> (edges ls)\<^sup>*}"

text \<open>
  A record's \<open>select\<close> is in order when it is absent, null, the empty string (what
  "new chat" stores to deselect) or one of the record's children.
\<close>

definition msgs_of :: "MsgStore \<Rightarrow> string list" where
  "msgs_of r = (case messages r of None \<Rightarrow> [] | Some ms \<Rightarrow> ms)"

definition select_ok :: "MsgStore \<Rightarrow> bool" where
  "select_ok r = (case select r of Sel x \<Rightarrow> x = [] \<or> x \<in> set (msgs_of r) | _ \<Rightarrow> True)"

definition all_select_ok :: "(string \<times> MsgStore) list \<Rightarrow> bool" where
  "all_select_ok ls = (\<forall>k. select_ok (storage_get ls k))"


text \<open>
  The values \<open>JSON.stringify\<close> and \<open>JSON.parse\<close> are exact on: no \<open>undefined\<close> but as
  the value of an object's property, numbers that are safe integers, and objects whose
  keys are distinct and not array indices (JavaScript lists such keys first).
  \<open>defined_fields\<close> is a value restricted to its defined properties.
\<close>

definition index_like :: "string \<Rightarrow> bool" where
  "index_like k = (k \<noteq> [] \<and> list_all is_digit k)"

definition safe_integer :: "int \<Rightarrow> bool" where
  "safe_integer n = (\<bar>n\<bar> \<le> 9007199254740991)"

fun serializable :: "jsval \<Rightarrow> bool" where
  "serializable JUndefined = False"
| "serializable JNull = True"
| "serializable (JBool b) = True"
| "serializable (JNum n) = safe_integer n"
| "serializable (JStr s) = True"
| "serializable (JArr vs) = (\<forall>v \<in> set vs. serializable v)"
| "serializable (JObj fs) =
     (distinct (map fst fs) \<and> (\<forall>k \<in> set (map fst fs). \<not> index_like k)
      \<and> (\<forall>v \<in> set (map snd fs). v = JUndefined \<or> serializable v))"

fun defined_fields :: "jsval \<Rightarrow> jsval" where
  "defined_fields (JArr vs) = JArr (map defined_fields vs)"
| "defined_fields (JObj fs) =
     JObj (map (\<lambda>p. (fst p, defined_fields (snd p))) (filter (\<lambda>p. snd p \<noteq> JUndefined) fs))"
| "defined_fields v = v"

text \<open>Notions of the round trip's proof.\<close>

definition text_of :: "jsval \<Rightarrow> string" where
  "text_of v = (case stringify v of None \<Rightarrow> ''null'' | Some t \<Rightarrow> t)"

definition member_text :: "string \<times> jsval \<Rightarrow> string" where
  "member_text p = quote (fst p) @ '':'' @ text_of (snd p)"

definition ok_rest :: "string \<Rightarrow> bool" where
  "ok_rest r = (r = [] \<or> \<not> is_digit (hd r))"

text \<open>The first character of a serialised value.\<close>

definition value_start :: "char \<Rightarrow> bool" where
  "value_start c = (c \<in> {CHR ''n'', CHR ''t'', CHR ''f'', CHR 0x22, CHR ''['', CHR ''{'', CHR ''-''}
     \<or> is_digit c)"

definition roundtrips :: "jsval \<Rightarrow> bool" where
  "roundtrips v = (\<forall>f r. ok_rest r \<longrightarrow> 2 * length (text_of v @ r) < f
     \<longrightarrow> parse_value f (text_of v @ r) = Some (defined_fields v, r))"

text \<open>
  A node record as the JavaScript object it is, an absent field being an \<open>undefined\<close>
  property, and the record an object stands for: each field read as the code reads it,
  \<open>present\<close> being what a property's value is after the round trip.
\<close>

definition opt :: "('a \<Rightarrow> jsval) \<Rightarrow> 'a option \<Rightarrow> jsval" where
  "opt f x = (case x of None \<Rightarrow> JUndefined | Some y \<Rightarrow> f y)"

definition role_text :: "role \<Rightarrow> string" where
  "role_text r = (case r of User \<Rightarrow> ''user'' | Assistant \<Rightarrow> ''assistant'')"

definition json_of :: "MsgStore \<Rightarrow> jsval" where
  "json_of r = JObj
     [(''weight'', opt JNum (weight r)),
      (''content'', opt JStr (content r)),
      (''messages'', opt (\<lambda>ms. JArr (map JStr ms)) (messages r)),
      (''select'', case select r of Undefined \<Rightarrow> JUndefined | Null \<Rightarrow> JNull | Sel x \<Rightarrow> JStr x),
      (''meta'', opt (\<lambda>m. JObj [(''model'', opt JStr (model m)), (''error'', opt JStr (error m))])
                   (meta r)),
      (''role'', opt (\<lambda>x. JStr (role_text x)) (role r)),
      (''id'', opt JStr (id_msg r)),
      (''task'', opt (\<lambda>i. JObj [(''id'', JStr i), (''result'', JObj [])]) (task r))]"

definition present :: "jsval \<Rightarrow> jsval option" where
  "present v = (if v = JUndefined then None else Some (defined_fields v))"

definition as_num :: "jsval option \<Rightarrow> int option" where
  "as_num v = (case v of Some (JNum n) \<Rightarrow> Some n | _ \<Rightarrow> None)"

definition as_str :: "jsval option \<Rightarrow> string option" where
  "as_str v = (case v of Some (JStr x) \<Rightarrow> Some x | _ \<Rightarrow> None)"

definition as_strs :: "jsval option \<Rightarrow> string list option" where
  "as_strs v =
     (case v of
        Some (JArr vs) \<Rightarrow> Some (map (\<lambda>x. case x of JStr y \<Rightarrow> y | _ \<Rightarrow> []) vs)
      | _ \<Rightarrow> None)"

definition as_select :: "jsval option \<Rightarrow> select_t" where
  "as_select v = (case v of Some JNull \<Rightarrow> Null | Some (JStr x) \<Rightarrow> Sel x | _ \<Rightarrow> Undefined)"

definition as_meta :: "jsval option \<Rightarrow> meta_t option" where
  "as_meta v =
     (case v of
        Some (JObj ms) \<Rightarrow>
          Some \<lparr> model = as_str (map_of ms ''model''), error = as_str (map_of ms ''error'') \<rparr>
      | _ \<Rightarrow> None)"

definition as_role :: "jsval option \<Rightarrow> role option" where
  "as_role v =
     (case as_str v of
        None \<Rightarrow> None
      | Some x \<Rightarrow> if x = ''user'' then Some User
                  else if x = ''assistant'' then Some Assistant else None)"

definition as_task :: "jsval option \<Rightarrow> string option" where
  "as_task v = (case v of Some (JObj ms) \<Rightarrow> as_str (map_of ms ''id'') | _ \<Rightarrow> None)"

definition msg_of :: "jsval \<Rightarrow> MsgStore" where
  "msg_of v =
     (case v of
        JObj fs \<Rightarrow>
          \<lparr> weight = as_num (map_of fs ''weight''),
            content = as_str (map_of fs ''content''),
            messages = as_strs (map_of fs ''messages''),
            select = as_select (map_of fs ''select''),
            meta = as_meta (map_of fs ''meta''),
            role = as_role (map_of fs ''role''),
            id_msg = as_str (map_of fs ''id''),
            task = as_task (map_of fs ''task'') \<rparr>
      | _ \<Rightarrow> empty_msg)"

section \<open>The task registry\<close>

lemma newTask_tasks:
  "tasks (snd (newTask p s)) =
     tasks s @ [\<lparr> id_task = p_id p, result = length (atoms s), abort = controllers s \<rparr>]"
  by (simp add: newTask_def chatCompletion_def storeTask_def Let_def split: prod.splits)

lemma newTask_atom: "atom (fst (newTask p s)) = length (atoms s)"
  by (simp add: newTask_def chatCompletion_def Let_def split: prod.splits)

text \<open>
  Claim C3, as the code has it. \<open>newTask\<close> rejects nothing: it appends a task for the id
  to the registry whatever the registry holds, with a result atom of its own. The registry
  keeps at most one task per id as long as the id passed is not registered yet (the
  callers pass freshly generated ids), and the new task's atom is no registered task's.
\<close>

theorem newTask_registers:
  assumes "distinct (map id_task (tasks s))"
    and "p_id p \<notin> id_task ` set (tasks s)"
    and "\<forall>t \<in> set (tasks s). result t < length (atoms s)"
  shows "tasks (snd (newTask p s)) =
           tasks s @ [\<lparr> id_task = p_id p, result = length (atoms s), abort = controllers s \<rparr>]
         \<and> distinct (map id_task (tasks (snd (newTask p s))))
         \<and> (\<forall>t \<in> set (tasks s). result t \<noteq> atom (fst (newTask p s)))"
  using assms by (auto simp: newTask_tasks newTask_atom)

theorem newTask_registers_witness:
  "distinct (map id_task (tasks (snd (newTask (bare_props ''#aaaa'') init_sys))))
   \<and> ''#bbbb'' \<notin> id_task ` set (tasks (snd (newTask (bare_props ''#aaaa'') init_sys)))
   \<and> map id_task (tasks (snd (newTask (bare_props ''#bbbb'')
        (snd (newTask (bare_props ''#aaaa'') init_sys))))) = [''#aaaa'', ''#bbbb'']
   \<and> distinct (map id_task (tasks (snd (newTask (bare_props ''#bbbb'')
        (snd (newTask (bare_props ''#aaaa'') init_sys))))))"
  using newTask_registers [of "snd (newTask (bare_props ''#aaaa'') init_sys)" "bare_props ''#bbbb''"]
  by (simp add: newTask_tasks newTask_atom bare_props_def init_sys_def)

text \<open>
  Claim C3 as stated fails: a second \<open>newTask\<close> for a registered id is accepted, and the
  registry then holds two tasks with that id.
\<close>

theorem newTask_twice_counterexample:
  "map id_task (tasks (snd (newTask (bare_props ''#aaaa'')
      (snd (newTask (bare_props ''#aaaa'') init_sys))))) = [''#aaaa'', ''#aaaa'']"
  by (simp add: newTask_tasks bare_props_def init_sys_def)

lemmas model_defs = refresh_def layoutEffect_def newBranch_def
  storage_set_def storage_get_def childMsgs_def weight_of_def selectedMsg_def defaultChildRole_def
  empty_msg_def truthy_def js_or_def find_task_def chat_role_of_def id_is_select_def

lemmas task_defs = newMessageCompletion_def newTask_def chatCompletion_def storeTask_def
  removeTask_def atom_set_def call_def on_resolved_def on_rejected_def on_chunk_def settle_def

lemma find_task_append_last:
  "id_task t = i \<Longrightarrow> \<exists>y. find_task (ts @ [t]) i = Some y"
  by (induction ts) (auto simp: find_task_def)

lemma find_task_filter_none: "find_task (filter (\<lambda>t. id_task t \<noteq> i) ts) i = None"
  by (induction ts) (auto simp: find_task_def)

lemma storage_get_update:
  "storage_get (AList.update k v ls) k' = (if k' = k then v else storage_get ls k')"
  by (simp add: storage_get_def AList.update_conv')

lemma nmc_props:
  "p_id (props (fst (newMessageCompletion msgId msgs settings s))) = msgId"
  "p_onDone (props (fst (newMessageCompletion msgId msgs settings s))) = None"
  "started (fst (newMessageCompletion msgId msgs settings s)) =
     (if truthy (s_apiKey settings) then Pending else Rejected api_key_error)"
  by (simp_all add: newMessageCompletion_def newTask_def chatCompletion_def Let_def
      split: prod.splits)

lemma nmc_atom: "atom (fst (newMessageCompletion msgId msgs settings s)) = length (atoms s)"
  by (simp add: newMessageCompletion_def newTask_atom storage_set_def Let_def)

section \<open>A generation without an API key\<close>

text \<open>
  Claim C8, as the code has it. When the API key is absent (or empty), starting a
  generation issues no request: the promise of \<open>chatCompletion\<close> is rejected by its
  executor. \<open>newTask\<close> has no check of its own and registers the task all the same; the
  rejection handler then stores the error in the node's \<open>meta.error\<close> and removes the
  task, whatever the service would have delivered.
\<close>

theorem no_key_registers_then_removes:
  assumes "\<not> truthy (s_apiKey settings)"
  shows "(let nm = newMessageCompletion msgId msgs settings s; r = fst nm; s1 = snd nm;
              s2 = settle r evs s1
          in started r = Rejected api_key_error
             \<and> requests s1 = requests s
             \<and> find_task (tasks s1) msgId \<noteq> None
             \<and> requests s2 = requests s
             \<and> find_task (tasks s2) msgId = None
             \<and> meta (storage_get (localStorage s2) msgId)
                 = Some \<lparr> model = s_model settings, error = Some ''{}'' \<rparr>)"
  using assms
  by (simp add: newMessageCompletion_def newTask_def chatCompletion_def Let_def settle_def
      on_rejected_def call_def removeTask_def atom_set_def storage_set_def storeTask_def
      find_task_append_last find_task_filter_none storage_get_update api_key_error_def
      split: prod.splits)

theorem no_key_registers_then_removes_witness:
  "\<not> truthy (s_apiKey settings_nokey)
   \<and> started (fst (newMessageCompletion ''#aaaa'' [] settings_nokey placed))
       = Rejected api_key_error
   \<and> requests (snd (newMessageCompletion ''#aaaa'' [] settings_nokey placed)) = []
   \<and> find_task (tasks (snd (newMessageCompletion ''#aaaa'' [] settings_nokey placed))) ''#aaaa''
       \<noteq> None
   \<and> find_task (tasks (settle (fst (newMessageCompletion ''#aaaa'' [] settings_nokey placed))
         [Chunk (Some ''hel''), End]
         (snd (newMessageCompletion ''#aaaa'' [] settings_nokey placed)))) ''#aaaa'' = None
   \<and> meta (storage_get (localStorage (settle
         (fst (newMessageCompletion ''#aaaa'' [] settings_nokey placed))
         [Chunk (Some ''hel''), End]
         (snd (newMessageCompletion ''#aaaa'' [] settings_nokey placed)))) ''#aaaa'')
       = Some \<lparr> model = Some ''gpt-4o'', error = Some ''{}'' \<rparr>"
  using no_key_registers_then_removes
    [of settings_nokey "''#aaaa''" "[]" placed "[Chunk (Some ''hel''), End]"]
  by (simp add: Let_def settings_nokey_def placed_def mounted_def init_sys_def model_defs)

text \<open>
  Claim C8 as stated fails: without an API key the task is in the registry's list once
  \<open>newTask\<close> has returned.
\<close>

theorem no_key_task_listed_counterexample:
  "s_apiKey settings_nokey = None
   \<and> map id_task (tasks (snd (newMessageCompletion ''#aaaa'' [] settings_nokey placed)))
       = [''#aaaa'']"
  by (simp add: settings_nokey_def placed_def mounted_def init_sys_def model_defs task_defs Let_def)

section \<open>Streaming into a node\<close>

lemma nmc_on_chunk:
  "on_chunk (fst (newMessageCompletion msgId msgs settings s0)) d (acc, s) =
     (if delta d \<noteq> []
      then (acc @ delta d, streamed msgId settings s0 (acc @ delta d) s)
      else (acc, s))"
  by (simp add: on_chunk_def newMessageCompletion_def newTask_def chatCompletion_def Let_def
      call_def delta_def streamed_def task_msg_def storage_set_def split: prod.splits)

lemma streamed_streamed:
  "streamed msgId settings s0 t2 (streamed msgId settings s0 t1 s) =
     streamed msgId settings s0 t2 s"
  by (simp add: streamed_def storage_set_def atom_set_def)

lemma stream_chunks:
  "stream r (map Chunk ds @ evs) (acc, s) = stream r evs (fold (on_chunk r) ds (acc, s))"
proof (induction ds arbitrary: acc s)
  case Nil
  then show ?case by simp
next
  case (Cons d ds)
  obtain acc' s' where "on_chunk r d (acc, s) = (acc', s')"
    by (cases "on_chunk r d (acc, s)")
  with Cons show ?case by simp
qed

lemma deltas_Cons: "deltas (d # ds) = delta d @ deltas ds"
  by (simp add: deltas_def)

lemma fold_on_chunk:
  "fold (on_chunk (fst (newMessageCompletion msgId msgs settings s0))) ds (acc, s) =
     (acc @ deltas ds,
      if deltas ds = [] then s else streamed msgId settings s0 (acc @ deltas ds) s)"
proof (induction ds arbitrary: acc s)
  case Nil
  then show ?case by (simp add: deltas_def)
next
  case (Cons d ds)
  show ?case
    by (cases "deltas ds = []")
      (simp_all add: nmc_on_chunk Cons.IH streamed_streamed deltas_Cons)
qed

subsection \<open>The scenario, evaluated\<close>

lemma mounted_eq:
  "mounted = init_sys\<lparr> localStorage := [(''#0000'', empty_msg\<lparr> weight := Some 0 \<rparr>)] \<rparr>"
  by (simp add: mounted_def init_sys_def model_defs)

lemma branched_task:
  "fst branched = [fst (newMessageCompletion ''#aaaa''
       (root_initialContent @ [\<lparr> m_role = RUser, m_content = ''hi'' \<rparr>]) settings_key placed)]"
  by (simp add: branched_def placed_def mounted_eq newBranch_def refresh_def Let_def send_hi_def
      selectedMsg_def childMsgs_def storage_get_def empty_msg_def defaultChildRole_def truthy_def
      chat_role_of_def init_sys_def split: prod.splits)

lemma branched_storage:
  "localStorage (snd branched) =
     [(''#0000'', empty_msg\<lparr> weight := Some 0, messages := Some [''#uuuu''],
          select := Sel ''#uuuu'' \<rparr>),
      (''#aaaa'', empty_msg\<lparr> meta := Some \<lparr> model = Some ''gpt-4o'', error = None \<rparr>,
          role := Some Assistant, id_msg := Some ''#aaaa'' \<rparr>),
      (''#uuuu'', empty_msg\<lparr> content := Some ''hi'', messages := Some [''#aaaa''],
          select := Sel ''#aaaa'', role := Some User, id_msg := Some ''#uuuu'' \<rparr>)]"
  by (simp add: branched_def mounted_eq init_sys_def send_hi_def settings_key_def
      model_defs task_defs Let_def)

lemma rendered_storage:
  "localStorage rendered =
     [(''#0000'', empty_msg\<lparr> weight := Some 2, messages := Some [''#uuuu''],
          select := Sel ''#uuuu'' \<rparr>),
      (''#aaaa'', empty_msg\<lparr> meta := Some \<lparr> model = Some ''gpt-4o'', error = None \<rparr>,
          role := Some Assistant, id_msg := Some ''#aaaa'' \<rparr>),
      (''#uuuu'', empty_msg\<lparr> weight := Some 1, content := Some ''hi'',
          messages := Some [''#aaaa''], select := Sel ''#aaaa'', role := Some User,
          id_msg := Some ''#uuuu'' \<rparr>)]"
  by (simp add: rendered_def committed_def uuuu_effect_def branched_def mounted_eq init_sys_def
      send_hi_def settings_key_def model_defs task_defs Let_def)

lemma rendered_rest:
  "tasks rendered = [\<lparr> id_task = ''#aaaa'', result = 0, abort = 0 \<rparr>]"
  "atoms rendered = [[]]"
  "aborts rendered = []"
  by (simp_all add: rendered_def committed_def uuuu_effect_def branched_def mounted_eq
      init_sys_def send_hi_def settings_key_def model_defs task_defs Let_def)

lemma placed_atoms: "atoms placed = []"
  by (simp add: placed_def mounted_eq init_sys_def storage_set_def)

lemma placed_aaaa:
  "storage_get (localStorage placed) ''#aaaa''
     = empty_msg\<lparr> id_msg := Some ''#aaaa'', role := Some Assistant \<rparr>"
  by (simp add: placed_def storage_set_def storage_get_update)

lemma streaming_eq:
  "streaming ds =
     (deltas ds,
      if deltas ds = [] then rendered
      else streamed ''#aaaa'' settings_key placed (deltas ds) rendered)"
  by (simp add: streaming_def branched_task fold_on_chunk)

lemma answered_eq:
  "answered ds = removeTask ''#aaaa'' (atom_set 0 (deltas ds) (snd (streaming ds)))"
proof -
  have "truthy (s_apiKey settings_key)"
    by (simp add: settings_key_def truthy_def)
  then show ?thesis
    by (simp add: answered_def settle_def branched_task nmc_props nmc_atom placed_atoms
        stream_chunks fold_on_chunk on_resolved_def call_def streaming_eq)
qed

lemma streamed_aaaa:
  "text \<noteq> [] \<Longrightarrow>
   storage_get (localStorage (streamed ''#aaaa'' settings_key placed text s)) ''#aaaa''
     = empty_msg\<lparr> content := Some (text @ '' ''),
         meta := Some \<lparr> model = Some ''gpt-4o'', error = None \<rparr>,
         role := Some Assistant, id_msg := Some ''#aaaa'' \<rparr>"
  by (simp add: streamed_def task_msg_def placed_aaaa storage_set_def atom_set_def
      storage_get_update settings_key_def js_or_def truthy_def empty_msg_def)

lemma streamed_other:
  "k \<noteq> ''#aaaa'' \<Longrightarrow>
   storage_get (localStorage (streamed ''#aaaa'' settings_key placed text s)) k
     = storage_get (localStorage s) k"
  by (simp add: streamed_def storage_set_def atom_set_def storage_get_update)

lemma streamed_rest:
  "atoms (streamed ''#aaaa'' settings_key placed text s) = (atoms s)[0 := text]"
  "tasks (streamed ''#aaaa'' settings_key placed text s) = tasks s"
  "aborts (streamed ''#aaaa'' settings_key placed text s) = aborts s"
  by (simp_all add: streamed_def storage_set_def atom_set_def placed_atoms)

section \<open>Cancelling a task\<close>







section \<open>The scenario of a first message and its answer\<close>

text \<open>
  Claim C7, as the code has it. From an empty root, \<open>newBranch\<close> with content \<open>hi\<close> and
  \<open>addAnswer\<close> leaves one user child with content \<open>hi\<close>, which has one assistant
  placeholder child with a registered task. After any chunks the result atom holds their
  cumulative text. Once the stream has ended with the text \<open>hello\<close>, the assistant child's
  content is \<open>hello\<close> followed by one space (each chunk stores the cumulative text and a
  space), the user node's weight is 1, the root's weight is 2, and the task is gone.
\<close>

theorem hi_hello_scenario:
  assumes "deltas ds = ''hello''"
  shows "storage_get (localStorage (snd branched)) ''#0000''
           = empty_msg\<lparr> weight := Some 0, messages := Some [''#uuuu''],
               select := Sel ''#uuuu'' \<rparr>
       \<and> storage_get (localStorage (snd branched)) ''#uuuu''
           = empty_msg\<lparr> content := Some ''hi'', messages := Some [''#aaaa''],
               select := Sel ''#aaaa'', role := Some User, id_msg := Some ''#uuuu'' \<rparr>
       \<and> storage_get (localStorage (snd branched)) ''#aaaa''
           = empty_msg\<lparr> meta := Some \<lparr> model = Some ''gpt-4o'', error = None \<rparr>,
               role := Some Assistant, id_msg := Some ''#aaaa'' \<rparr>
       \<and> map id_task (tasks (snd branched)) = [''#aaaa'']
       \<and> atoms (snd (streaming ds')) = [deltas ds']
       \<and> content (storage_get (localStorage (answered ds)) ''#aaaa'') = Some ''hello ''
       \<and> weight (storage_get (localStorage (answered ds)) ''#uuuu'') = Some 1
       \<and> weight (storage_get (localStorage (answered ds)) ''#0000'') = Some 2
       \<and> atoms (answered ds) = [''hello'']
       \<and> tasks (answered ds) = []"
proof -
  have "map id_task (tasks (snd branched)) = [''#aaaa'']"
    by (simp add: branched_def mounted_eq init_sys_def send_hi_def settings_key_def
      model_defs task_defs Let_def)
  moreover have "atoms (snd (streaming ds')) = [deltas ds']"
    by (simp add: streaming_eq streamed_rest rendered_rest)
  moreover have "content (storage_get (localStorage (answered ds)) ''#aaaa'') = Some ''hello ''"
    using assms
    by (simp add: answered_eq streaming_eq removeTask_def atom_set_def streamed_aaaa)
  moreover have "weight (storage_get (localStorage (answered ds)) ''#uuuu'') = Some 1"
    using assms
    by (simp add: answered_eq streaming_eq removeTask_def atom_set_def streamed_other)
      (simp add: rendered_storage storage_get_def)
  moreover have "weight (storage_get (localStorage (answered ds)) ''#0000'') = Some 2"
    using assms
    by (simp add: answered_eq streaming_eq removeTask_def atom_set_def streamed_other)
      (simp add: rendered_storage storage_get_def)
  moreover have "atoms (answered ds) = [''hello'']"
    using assms
    by (simp add: answered_eq streaming_eq removeTask_def atom_set_def streamed_rest
        rendered_rest)
  moreover have "tasks (answered ds) = []"
    using assms
    by (simp add: answered_eq streaming_eq removeTask_def atom_set_def streamed_rest
        rendered_rest)
  ultimately show ?thesis
    by (simp add: branched_storage storage_get_def)
qed

theorem hi_hello_scenario_witness:
  "deltas [Some ''hel'', None, Some ''lo''] = ''hello''
   \<and> atoms (snd (streaming [Some ''hel''])) = [''hel'']
   \<and> content (storage_get (localStorage (answered [Some ''hel'', None, Some ''lo''])) ''#aaaa'')
       = Some ''hello ''
   \<and> weight (storage_get (localStorage (answered [Some ''hel'', None, Some ''lo''])) ''#uuuu'')
       = Some 1
   \<and> weight (storage_get (localStorage (answered [Some ''hel'', None, Some ''lo''])) ''#0000'')
       = Some 2"
  using hi_hello_scenario [of "[Some ''hel'', None, Some ''lo'']" "[Some ''hel'']"]
  by (simp add: deltas_def delta_def js_or_def truthy_def)

text \<open>
  Claim C7 as stated fails: once the task has settled with the text \<open>hello\<close>, the
  assistant child's content is not \<open>hello\<close>.
\<close>

theorem hi_hello_content_counterexample:
  "atoms (answered [Some ''hel'', Some ''lo'']) = [''hello'']
   \<and> content (storage_get (localStorage (answered [Some ''hel'', Some ''lo''])) ''#aaaa'')
       \<noteq> Some ''hello''"
  by (simp add: answered_eq streaming_eq deltas_def delta_def js_or_def truthy_def
      removeTask_def atom_set_def streamed_aaaa streamed_rest rendered_rest)

section \<open>The cascading delete\<close>

lemma storage_get_delete:
  "storage_get (AList.delete i ls) k = (if k = i then empty_msg else storage_get ls k)"
  by (simp add: storage_get_def AList.delete_conv')

lemma children_of_delete:
  "children_of (AList.delete i ls) a = (if a = i then [] else children_of ls a)"
  by (simp add: children_of_def storage_get_delete empty_msg_def)

lemma edges_delete: "edges (AList.delete i ls) = {(a, b). (a, b) \<in> edges ls \<and> a \<noteq> i}"
  by (auto simp: edges_def children_of_delete split: if_splits)



lemma edges_delete_subset: "(edges (AList.delete i ls))\<^sup>* \<subseteq> (edges ls)\<^sup>*"
  by (rule rtrancl_mono) (auto simp: edges_delete)

lemma step_storage [simp]:
  "localStorage (abort_found i (removeItem i s)) = AList.delete i (localStorage s)"
  by (simp add: abort_found_def invoke_abort_def removeItem_def split: option.splits)


declare recDel.simps(2) [simp del]

lemma recDel_Cons:
  "recDel (i # pending) s =
     recDel (children_of (localStorage s) i @ pending) (abort_found i (removeItem i s))"
  by (simp add: children_of_def Let_def recDel.simps(2) split: option.splits)

lemma recDel_induct [case_names Nil Cons]:
  assumes "\<And>s. P [] s"
    and "\<And>i pending s.
      P (children_of (localStorage s) i @ pending) (abort_found i (removeItem i s))
      \<Longrightarrow> P (i # pending) s"
  shows "P p s"
proof (induction p s rule: recDel.induct)
  case (1 s)
  show ?case by (rule assms(1))
next
  case (2 i pending s)
  show ?case
  proof (rule assms(2), cases "messages (storage_get (localStorage s) i)")
    case None
    with 2(1) [OF refl refl None] show
      "P (children_of (localStorage s) i @ pending) (abort_found i (removeItem i s))"
      by (simp add: children_of_def)
  next
    case (Some cs)
    with 2(2) [OF refl refl Some] show
      "P (children_of (localStorage s) i @ pending) (abort_found i (removeItem i s))"
      by (simp add: children_of_def)
  qed
qed

lemma recDel_append: "recDel (xs @ ys) s = recDel ys (recDel xs s)"
proof (induction xs s arbitrary: ys rule: recDel_induct)
  case (Nil s)
  then show ?case by simp
next
  case (Cons i pending s)
  have "recDel ((i # pending) @ ys) s =
      recDel ((children_of (localStorage s) i @ pending) @ ys) (abort_found i (removeItem i s))"
    by (simp add: recDel_Cons)
  also have "\<dots> = recDel ys (recDel (children_of (localStorage s) i @ pending)
      (abort_found i (removeItem i s)))"
    by (rule Cons.IH)
  finally show ?case by (simp add: recDel_Cons)
qed

lemma recDel_each: "recDel cs s = fold (\<lambda>c. recDel [c]) cs s"
proof (induction cs arbitrary: s)
  case Nil
  then show ?case by simp
next
  case (Cons c cs)
  have "recDel (c # cs) s = recDel cs (recDel [c] s)"
    using recDel_append [of "[c]" cs s] by simp
  with Cons show ?case by simp
qed

text \<open>
  The call on one id is what the source writes: remove the record, abort the task found,
  then make the call on each child in turn.
\<close>

lemma recDel_call:
  "recDel [i] s =
     fold (\<lambda>c. recDel [c]) (children_of (localStorage s) i) (abort_found i (removeItem i s))"
  using recDel_each [of "children_of (localStorage s) i" "abort_found i (removeItem i s)"]
  by (simp add: recDel_Cons)






lemma recDel_frame:
  "\<forall>x \<in> set p. (x, k) \<notin> (edges (localStorage s))\<^sup>*
   \<Longrightarrow> map_of (localStorage (recDel p s)) k = map_of (localStorage s) k"
proof (induction p s rule: recDel_induct)
  case (Nil s)
  then show ?case by simp
next
  case (Cons i pending s)
  let ?ls = "localStorage s"
  let ?s1 = "abort_found i (removeItem i s)"
  from Cons.prems have ki: "k \<noteq> i" by auto
  have "\<forall>y \<in> set (children_of ?ls i @ pending). (y, k) \<notin> (edges (localStorage ?s1))\<^sup>*"
  proof
    fix y assume y: "y \<in> set (children_of ?ls i @ pending)"
    show "(y, k) \<notin> (edges (localStorage ?s1))\<^sup>*"
    proof
      assume "(y, k) \<in> (edges (localStorage ?s1))\<^sup>*"
      then have yk: "(y, k) \<in> (edges ?ls)\<^sup>*"
        using edges_delete_subset [of i ?ls] by auto
      show False
      proof (cases "y \<in> set pending")
        case True
        with Cons.prems yk show False by auto
      next
        case False
        with y have "(i, y) \<in> edges ?ls" by (simp add: edges_def)
        with yk have "(i, k) \<in> (edges ?ls)\<^sup>*"
          by (meson converse_rtrancl_into_rtrancl)
        with Cons.prems show False by auto
      qed
    qed
  qed
  then have "map_of (localStorage (recDel (i # pending) s)) k = map_of (localStorage ?s1) k"
    by (simp only: recDel_Cons Cons.IH)
  with ki show ?case by (simp add: AList.delete_conv')
qed


lemma children_of_update:
  "children_of (AList.update i v ls) b =
     (if b = i then (case messages v of None \<Rightarrow> [] | Some ms \<Rightarrow> ms) else children_of ls b)"
  by (simp add: children_of_def storage_get_update)

lemma descendants_update:
  assumes "i \<notin> descendants ls a"
  shows "descendants (AList.update i v ls) a = descendants ls a"
proof -
  have 1: "(a, k) \<in> (edges ls)\<^sup>*" if "(a, k) \<in> (edges (AList.update i v ls))\<^sup>*" for k
    using that
  proof (induction rule: rtrancl_induct)
    case base
    then show ?case by simp
  next
    case (step b k)
    from step.IH assms have "b \<noteq> i" by (auto simp: descendants_def)
    with step.hyps(2) have "(b, k) \<in> edges ls"
      by (simp add: edges_def children_of_update)
    with step.IH show ?case by (meson rtrancl.rtrancl_into_rtrancl)
  qed
  have 2: "(a, k) \<in> (edges (AList.update i v ls))\<^sup>*" if "(a, k) \<in> (edges ls)\<^sup>*" for k
    using that
  proof (induction rule: rtrancl_induct)
    case base
    then show ?case by simp
  next
    case (step b k)
    from step.hyps(1) assms have "b \<noteq> i" by (auto simp: descendants_def)
    with step.hyps(2) have "(b, k) \<in> edges (AList.update i v ls)"
      by (simp add: edges_def children_of_update)
    with step.IH show ?case by (meson rtrancl.rtrancl_into_rtrancl)
  qed
  from 1 2 show ?thesis by (auto simp: descendants_def)
qed


lemma handleItemDelete_eq:
  "handleItemDelete i parentMsg msgId s =
     recDel [msgId]
       (storage_set i
          (parentMsg\<lparr> select :=
               (if select parentMsg = Sel msgId
                then newSelected_of (filter (\<lambda>m. m \<noteq> msgId) (case messages parentMsg of None \<Rightarrow> [] | Some ms \<Rightarrow> ms))
                       (indexOf (case messages parentMsg of None \<Rightarrow> [] | Some ms \<Rightarrow> ms) msgId)
                else select parentMsg),
             messages := Some (filter (\<lambda>m. m \<noteq> msgId) (case messages parentMsg of None \<Rightarrow> [] | Some ms \<Rightarrow> ms)) \<rparr>) s)"
  by (simp add: handleItemDelete_def Let_def)

lemma storage_set_simps [simp]:
  "localStorage (storage_set k v s) = AList.update k v (localStorage s)"
  "tasks (storage_set k v s) = tasks s"
  "aborts (storage_set k v s) = aborts s"
  "atoms (storage_set k v s) = atoms s"
  by (simp_all add: storage_set_def)


lemma descendants_unfold:
  "descendants ls a = insert a (\<Union>c \<in> set (children_of ls a). descendants ls c)"
proof -
  have "k = a \<or> (\<exists>c \<in> set (children_of ls a). (c, k) \<in> (edges ls)\<^sup>*)"
    if "(a, k) \<in> (edges ls)\<^sup>*" for k
    using that by (cases rule: converse_rtranclE) (auto simp: edges_def)
  moreover have "(a, k) \<in> (edges ls)\<^sup>*"
    if "c \<in> set (children_of ls a)" "(c, k) \<in> (edges ls)\<^sup>*" for c k
  proof -
    from that(1) have "(a, c) \<in> edges ls" by (simp add: edges_def)
    with that(2) show ?thesis by (meson converse_rtrancl_into_rtrancl)
  qed
  ultimately show ?thesis by (auto simp: descendants_def)
qed

lemma descendants_leaf: "children_of ls a = [] \<Longrightarrow> descendants ls a = {a}"
  using descendants_unfold [of ls a] by simp





section \<open>Re-pointing \<open>select\<close> on delete\<close>


lemma indexOf_nonneg:
  "x \<in> set xs \<Longrightarrow> indexOf xs x = int (length (takeWhile (\<lambda>m. m \<noteq> x) xs))"
  by (induction xs) (auto simp: Let_def)

lemma newSelected_of_pos:
  assumes "[] \<notin> set xs"
  shows "newSelected_of xs (int n) =
     (if n < length xs then Sel (xs ! n) else if xs \<noteq> [] then Sel (hd xs) else Null)"
proof (cases xs)
  case Nil
  then show ?thesis by (simp add: newSelected_of_def js_or_def js_nth_def truthy_def)
next
  case (Cons y ys)
  with assms have "y \<noteq> []" by auto
  moreover from assms have "n < length xs \<Longrightarrow> xs ! n \<noteq> []"
    by (metis nth_mem)
  ultimately show ?thesis
    using Cons by (auto simp: newSelected_of_def js_or_def js_nth_def truthy_def)
qed

lemma newSelected_of_member:
  "newSelected_of xs n = Sel m \<Longrightarrow> m \<in> set xs"
  by (auto simp: newSelected_of_def js_or_def js_nth_def truthy_def
      split: option.splits if_splits)

text \<open>
  Claim C6. Let the component of \<open>i\<close> hold the snapshot \<open>parentMsg\<close> whose \<open>select\<close> is
  the child \<open>msgId\<close> to delete, among its children \<open>msgs\<close>; ids are not empty, and \<open>i\<close>
  is not a descendant of \<open>msgId\<close>. After the delete the record of \<open>i\<close> is the snapshot
  with \<open>msgId\<close> removed from the children and \<open>select\<close> re-pointed: to the sibling now at
  the position the deleted child had, else to the new first sibling, and to null when no
  sibling remains.
\<close>

theorem delete_repoints_select:
  assumes "select parentMsg = Sel msgId"
    and "messages parentMsg = Some msgs"
    and "msgId \<in> set msgs"
    and "[] \<notin> set msgs"
    and "i \<notin> descendants (localStorage s) msgId"
  shows "(let newMsgs = filter (\<lambda>m. m \<noteq> msgId) msgs;
              pos = length (takeWhile (\<lambda>m. m \<noteq> msgId) msgs)
          in storage_get (localStorage (handleItemDelete i parentMsg msgId s)) i =
               parentMsg\<lparr> select :=
                   (if pos < length newMsgs then Sel (newMsgs ! pos)
                    else if newMsgs \<noteq> [] then Sel (hd newMsgs) else Null),
                 messages := Some newMsgs \<rparr>)"
proof -
  define newMsgs where "newMsgs = filter (\<lambda>m. m \<noteq> msgId) msgs"
  define pos where "pos = length (takeWhile (\<lambda>m. m \<noteq> msgId) msgs)"
  define v where "v = parentMsg\<lparr> select := newSelected_of newMsgs (indexOf msgs msgId),
                     messages := Some newMsgs \<rparr>"
  define s1 where "s1 = storage_set i v s"
  have h: "handleItemDelete i parentMsg msgId s = recDel [msgId] s1"
    using assms(1,2) by (simp add: handleItemDelete_eq s1_def v_def newMsgs_def)
  have "i \<notin> descendants (localStorage s1) msgId"
    using assms(5) by (simp add: s1_def descendants_update)
  then have "\<forall>x \<in> set [msgId]. (x, i) \<notin> (edges (localStorage s1))\<^sup>*"
    by (simp add: descendants_def)
  then have "map_of (localStorage (recDel [msgId] s1)) i = map_of (localStorage s1) i"
    by (rule recDel_frame)
  then have "storage_get (localStorage (recDel [msgId] s1)) i = v"
    by (simp add: storage_get_def s1_def AList.update_conv')
  moreover have "[] \<notin> set newMsgs"
    using assms(4) by (simp add: newMsgs_def)
  ultimately show ?thesis
    using assms(3)
    by (simp add: h v_def indexOf_nonneg newSelected_of_pos Let_def
        flip: newMsgs_def pos_def)
qed

lemma two_branches_storage:
  "localStorage two_branches =
     [(''#0000'', empty_msg\<lparr> weight := Some 2, messages := Some [''#bbbb'', ''#aaaa''],
          select := Sel ''#bbbb'' \<rparr>),
      (''#aaaa'', empty_msg\<lparr> content := Some ''one'', role := Some User,
          id_msg := Some ''#aaaa'' \<rparr>),
      (''#bbbb'', empty_msg\<lparr> content := Some ''two'', role := Some User,
          id_msg := Some ''#bbbb'' \<rparr>)]"
  by (simp add: two_branches_def mounted_eq init_sys_def send_plain_def settings_key_def
      model_defs Let_def)

theorem delete_repoints_select_witness:
  "select (refresh ''#0000'' two_branches) = Sel ''#bbbb''
   \<and> messages (refresh ''#0000'' two_branches) = Some [''#bbbb'', ''#aaaa'']
   \<and> ''#0000'' \<notin> descendants (localStorage two_branches) ''#bbbb''
   \<and> select (storage_get (localStorage
         (handleItemDelete ''#0000'' (refresh ''#0000'' two_branches) ''#bbbb'' two_branches))
         ''#0000'') = Sel ''#aaaa''
   \<and> messages (storage_get (localStorage
         (handleItemDelete ''#0000'' (refresh ''#0000'' two_branches) ''#bbbb'' two_branches))
         ''#0000'') = Some [''#aaaa'']"
proof -
  have "children_of (localStorage two_branches) ''#bbbb'' = []"
    by (simp add: two_branches_storage children_of_def storage_get_def empty_msg_def)
  then have d: "descendants (localStorage two_branches) ''#bbbb'' = {''#bbbb''}"
    by (rule descendants_leaf)
  have r: "refresh ''#0000'' two_branches
      = empty_msg\<lparr> weight := Some 2, messages := Some [''#bbbb'', ''#aaaa''],
          select := Sel ''#bbbb'' \<rparr>"
    by (simp add: refresh_def two_branches_storage storage_get_def)
  show ?thesis
    using delete_repoints_select [of "refresh ''#0000'' two_branches" "''#bbbb''"
        "[''#bbbb'', ''#aaaa'']" "''#0000''" two_branches]
    by (simp add: d r Let_def)
qed

section \<open>The \<open>select\<close> invariant\<close>


lemma recDel_only_removes:
  "storage_get (localStorage (recDel p s)) k = empty_msg
   \<or> storage_get (localStorage (recDel p s)) k = storage_get (localStorage s) k"
proof (induction p s rule: recDel_induct)
  case (Nil s)
  then show ?case by simp
next
  case (Cons i pending s)
  then show ?case
    by (simp only: recDel_Cons) (auto simp: storage_get_delete split: if_splits)
qed

lemma select_ok_empty: "select_ok empty_msg"
  by (simp add: select_ok_def empty_msg_def)

lemma ok_update:
  "all_select_ok ls \<Longrightarrow> select_ok v \<Longrightarrow> all_select_ok (AList.update k v ls)"
  by (simp add: all_select_ok_def storage_get_update)

lemma ok_recDel:
  "all_select_ok (localStorage s) \<Longrightarrow> all_select_ok (localStorage (recDel p s))"
  unfolding all_select_ok_def
  using recDel_only_removes select_ok_empty by metis

lemma nmc_storage:
  "localStorage (snd (newMessageCompletion msgId msgs settings s)) =
     AList.update msgId (task_msg msgId settings s) (localStorage s)"
  by (simp add: newMessageCompletion_def newTask_def chatCompletion_def storeTask_def Let_def
      task_msg_def storage_set_def split: prod.splits)

lemma select_ok_task_msg:
  "select_ok (task_msg msgId settings s) = select_ok (storage_get (localStorage s) msgId)"
  by (simp add: select_ok_def task_msg_def msgs_of_def split: select_t.splits)

lemma ok_nmc:
  "all_select_ok (localStorage s)
   \<Longrightarrow> all_select_ok (localStorage (snd (newMessageCompletion msgId msgs settings s)))"
  by (simp add: nmc_storage all_select_ok_def storage_get_update select_ok_task_msg)

lemma ok_newBranch:
  assumes "all_select_ok (localStorage s)" and "select_ok parentMsg"
  shows "all_select_ok (localStorage (snd (newBranch i parentMsg ic sel settings n1 n2 b s)))"
  using assms
  by (auto simp: newBranch_def Let_def case_prod_beta select_ok_def msgs_of_def empty_msg_def
      intro!: ok_update ok_nmc)

lemma ok_handleItemDelete:
  assumes "all_select_ok (localStorage s)" and "select_ok parentMsg"
  shows "all_select_ok (localStorage (handleItemDelete i parentMsg msgId s))"
proof -
  have "select_ok (parentMsg\<lparr> select :=
               (if select parentMsg = Sel msgId
                then newSelected_of (filter (\<lambda>m. m \<noteq> msgId) (case messages parentMsg of None \<Rightarrow> [] | Some ms \<Rightarrow> ms))
                       (indexOf (case messages parentMsg of None \<Rightarrow> [] | Some ms \<Rightarrow> ms) msgId)
                else select parentMsg),
             messages := Some (filter (\<lambda>m. m \<noteq> msgId) (case messages parentMsg of None \<Rightarrow> [] | Some ms \<Rightarrow> ms)) \<rparr>)"
    using assms(2)
    by (auto simp: select_ok_def msgs_of_def split: select_t.splits option.splits
        dest: newSelected_of_member)
  with assms(1) show ?thesis
    unfolding handleItemDelete_eq by (intro ok_recDel) (simp add: ok_update)
qed

lemma ok_handleItemClick:
  assumes "all_select_ok (localStorage s)" and "msgId = [] \<or> msgId \<in> set (msgs_of parentMsg)"
  shows "all_select_ok (localStorage (handleItemClick i parentMsg msgId s))"
  using assms by (auto simp: handleItemClick_def select_ok_def msgs_of_def intro!: ok_update)

text \<open>
  Claim C4, as the code has it. Let every stored record have its \<open>select\<close> in order
  (absent, null, the empty string, or one of its children), and the snapshot of the
  component as well. Then the same holds of every record after branch creation, after
  deletion (which re-points or clears \<open>select\<close>), and after a selection of a child or of
  the empty string, which is what "new chat" selects to deselect.
\<close>

theorem mutations_keep_select_ok:
  assumes "all_select_ok (localStorage s)" and "select_ok parentMsg"
  shows "all_select_ok (localStorage (snd (newBranch i parentMsg ic sel settings n1 n2 b s)))
       \<and> all_select_ok (localStorage (handleItemDelete i parentMsg msgId s))
       \<and> (msgId = [] \<or> msgId \<in> set (msgs_of parentMsg)
            \<longrightarrow> all_select_ok (localStorage (handleItemClick i parentMsg msgId s)))"
  using assms by (simp add: ok_newBranch ok_handleItemDelete ok_handleItemClick)

lemma rendered_select_ok: "all_select_ok (localStorage rendered)"
  by (simp add: all_select_ok_def rendered_storage storage_get_def select_ok_def msgs_of_def
      empty_msg_def)

theorem mutations_keep_select_ok_witness:
  "all_select_ok (localStorage rendered) \<and> select_ok (refresh ''#0000'' rendered)
   \<and> ''#uuuu'' \<in> set (msgs_of (refresh ''#0000'' rendered))
   \<and> all_select_ok (localStorage (snd (newBranch ''#0000'' (refresh ''#0000'' rendered)
         root_initialContent None settings_key ''bbbb'' ''cccc'' send_hi rendered)))
   \<and> all_select_ok (localStorage
         (handleItemDelete ''#0000'' (refresh ''#0000'' rendered) ''#uuuu'' rendered))
   \<and> all_select_ok (localStorage
         (handleItemClick ''#0000'' (refresh ''#0000'' rendered) ''#uuuu'' rendered))"
proof -
  have r: "refresh ''#0000'' rendered
      = empty_msg\<lparr> weight := Some 2, messages := Some [''#uuuu''], select := Sel ''#uuuu'' \<rparr>"
    by (simp add: refresh_def rendered_storage storage_get_def)
  have ok: "select_ok (refresh ''#0000'' rendered)"
    by (simp add: r select_ok_def msgs_of_def empty_msg_def)
  have m: "''#uuuu'' \<in> set (msgs_of (refresh ''#0000'' rendered))"
    by (simp add: r msgs_of_def empty_msg_def)
  show ?thesis
    using mutations_keep_select_ok [OF rendered_select_ok ok, of "''#0000''"
        root_initialContent None settings_key "''bbbb''" "''cccc''" send_hi "''#uuuu''"]
    by (simp add: rendered_select_ok ok m)
qed

text \<open>
  Claim C4 as stated fails: "new chat" runs \<open>handleItemClick("")\<close> in the root's
  component, and the root's \<open>select\<close> is then a string that names none of its children.
\<close>

theorem deselect_counterexample:
  "select (storage_get (localStorage
       (handleItemClick ''#0000'' (refresh ''#0000'' rendered) [] rendered)) ''#0000'') = Sel []
   \<and> messages (storage_get (localStorage
       (handleItemClick ''#0000'' (refresh ''#0000'' rendered) [] rendered)) ''#0000'')
       = Some [''#uuuu'']"
  by (simp add: handleItemClick_def refresh_def storage_get_update)
    (simp add: rendered_storage storage_get_def empty_msg_def)

section \<open>Weights\<close>











section \<open>\<open>editSelect\<close>\<close>

lemma find_Some_set: "find P xs = Some x \<Longrightarrow> x \<in> set xs \<and> P x"
  by (induction xs) (auto split: if_splits)

text \<open>
  On a snapshot taken from the current storage, where every child's record carries its
  key as \<open>id\<close>, \<open>editSelect\<close> rewrites the selected child's record from storage with the
  new content (and with the \<open>task\<close> property of the render).
\<close>

lemma editSelect_fresh:
  assumes "selectedMsg (refresh i s) (childMsgs (refresh i s) s) = Some m"
    and "\<forall>c \<in> set (children_of (localStorage s) i).
           id_msg (storage_get (localStorage s) c) = Some c"
  shows "\<exists>c \<in> set (children_of (localStorage s) i).
           select (refresh i s) = Sel c
           \<and> editSelect (Some m) txt s =
               storage_set c
                 ((storage_get (localStorage s) c)
                    \<lparr> task := map_option id_task (find_task (tasks s) c),
                      content := Some txt \<rparr>) s"
proof -
  from assms(1) have "m \<in> set (childMsgs (refresh i s) s)"
    and sel: "id_is_select (id_msg m) (select (refresh i s))"
    by (auto simp: selectedMsg_def dest: find_Some_set)
  then obtain c where c: "c \<in> set (children_of (localStorage s) i)"
    and m: "m = (storage_get (localStorage s) c)
                  \<lparr> task := map_option id_task (find_task (tasks s) c) \<rparr>"
    by (auto simp: childMsgs_def refresh_def children_of_def split: option.splits)
  from c assms(2) m have i: "id_msg m = Some c" by simp
  with sel have "select (refresh i s) = Sel c"
    by (auto simp: id_is_select_def split: select_t.splits)
  moreover have "editSelect (Some m) txt s =
      storage_set c ((storage_get (localStorage s) c)
        \<lparr> task := map_option id_task (find_task (tasks s) c), content := Some txt \<rparr>) s"
    by (simp add: editSelect_def i key_of_def) (simp add: m)
  ultimately show ?thesis using c by blast
qed

text \<open>
  Claim C9 fails on the code. \<open>editSelect\<close> stores the child as the parent's component
  read it at its last render, with the new content. In the scenario the user node's own
  component has since stored \<open>select = #aaaa\<close>; the root's \<open>editSelect\<close> puts the
  \<open>select\<close> of its last render, \<open>#bbbb\<close>, back.
\<close>

theorem editSelect_reverts_select:
  "select (storage_get (localStorage clicked) ''#uuuu'') = Sel ''#aaaa''
   \<and> select (storage_get (localStorage saved) ''#uuuu'') = Sel ''#bbbb''
   \<and> content (storage_get (localStorage saved) ''#uuuu'') = Some ''hi there''"
  by code_simp

section \<open>The JSON round trip of \<open>storage\<close>\<close>

lemma digit_char_is_digit: "n < 10 \<Longrightarrow> is_digit (digit_char n)"
  by (simp add: is_digit_def digit_char_def)

lemma digit_val_char: "n < 10 \<Longrightarrow> digit_val (digit_char n) = n"
  by (simp add: digit_val_def digit_char_def)

lemma show_nat_digits: "\<forall>c \<in> set (show_nat n). is_digit c"
proof (induction n rule: show_nat.induct)
  case (1 n)
  then show ?case
    by (subst show_nat.simps) (auto simp: digit_char_is_digit)
qed

lemma show_nat_nonempty: "show_nat n \<noteq> []"
  by (subst show_nat.simps) simp

lemma show_nat_value: "foldl (\<lambda>a c. 10 * a + digit_val c) 0 (show_nat n) = n"
proof (induction n rule: show_nat.induct)
  case (1 n)
  show ?case
  proof (cases "n < 10")
    case True
    then show ?thesis by (subst show_nat.simps) (simp add: digit_val_char)
  next
    case False
    with 1 show ?thesis by (subst show_nat.simps) (simp add: digit_val_char)
  qed
qed

lemma digit_char_zero: "n < 10 \<Longrightarrow> digit_char n = CHR ''0'' \<longleftrightarrow> n = 0"
  by (auto simp: digit_char_def char_of_eq_iff take_bit_eq_mod)

lemma show_nat_hd_zero: "hd (show_nat n) = CHR ''0'' \<longleftrightarrow> n = 0"
proof (induction n rule: show_nat.induct)
  case (1 n)
  show ?case
  proof (cases "n < 10")
    case True
    then show ?thesis by (subst show_nat.simps) (simp add: digit_char_zero)
  next
    case False
    with 1 have "hd (show_nat (n div 10)) \<noteq> CHR ''0''" by simp
    with False show ?thesis
      by (subst show_nat.simps) (simp add: show_nat_nonempty)
  qed
qed

lemma show_nat_zero: "show_nat 0 = ''0''"
  by (subst show_nat.simps) (simp add: digit_char_def char_of_eq_iff take_bit_eq_mod)

lemma takeWhile_digits:
  "ok_rest r \<Longrightarrow> takeWhile is_digit (show_nat n @ r) = show_nat n"
  using show_nat_digits [of n]
  by (cases r) (auto simp: ok_rest_def)

lemma dropWhile_digits:
  "ok_rest r \<Longrightarrow> dropWhile is_digit (show_nat n @ r) = r"
  using show_nat_digits [of n]
  by (cases r) (auto simp: ok_rest_def)

lemma parse_nat_show:
  assumes "ok_rest r"
  shows "parse_nat (show_nat n @ r) = Some (n, r)"
proof -
  have "\<not> (hd (show_nat n) = CHR ''0'' \<and> length (show_nat n) > 1)"
    by (auto simp: show_nat_hd_zero show_nat_zero)
  then show ?thesis
    using assms
    by (simp add: parse_nat_def takeWhile_digits dropWhile_digits show_nat_nonempty
        show_nat_value Let_def)
qed

lemma show_nat_hd_digit: "is_digit (hd (show_nat n))"
  using show_nat_digits [of n] show_nat_nonempty [of n] by (cases "show_nat n") auto

lemma parse_number_show:
  assumes "ok_rest r"
  shows "parse_number (show_int i @ r) = Some (JNum i, r)"
proof (cases "i < 0")
  case True
  then show ?thesis
    using assms by (simp add: parse_number_def show_int_def parse_nat_show)
next
  case False
  obtain a l where sn: "show_nat (nat i) = a # l"
    using show_nat_nonempty [of "nat i"] by (cases "show_nat (nat i)") auto
  have "a \<noteq> CHR ''-''"
    using show_nat_hd_digit [of "nat i"] sn by (auto simp: is_digit_def)
  with sn have "parse_number (show_nat (nat i) @ r)
      = map_option (\<lambda>(n, r). (JNum (int n), r)) (parse_nat (show_nat (nat i) @ r))"
    by (simp add: parse_number_def)
  with False assms show ?thesis
    by (simp add: parse_nat_show show_int_def)
qed

lemma hex_val_char: "n < 16 \<Longrightarrow> hex_val (hex_char n) = Some n"
  by (auto simp: hex_val_def hex_char_def Let_def)

lemma hex_val_zero: "hex_val CHR ''0'' = Some 0"
  by (simp add: hex_val_def)

lemma unquote_escape_char:
  "unquote (escape_char c @ r) = map_option (\<lambda>(s, t). (c # s, t)) (unquote r)"
proof -
  consider "c = CHR 0x22" | "c = CHR 0x5C" | "c = CHR 0x08" | "c = CHR 0x0C" | "c = CHR 0x0A"
    | "c = CHR 0x0D" | "c = CHR 0x09"
    | "c \<noteq> CHR 0x22" "c \<noteq> CHR 0x5C" "c \<noteq> CHR 0x08" "c \<noteq> CHR 0x0C" "c \<noteq> CHR 0x0A"
      "c \<noteq> CHR 0x0D" "c \<noteq> CHR 0x09" "(of_char c :: nat) < 32"
    | "c \<noteq> CHR 0x22" "c \<noteq> CHR 0x5C" "\<not> (of_char c :: nat) < 32"
    by blast
  then show ?thesis
  proof cases
    case 8
    let ?n = "of_char c :: nat"
    have d: "?n div 16 < 16" "?n mod 16 < 16" using 8(8) by auto
    have "((0 * 16 + 0) * 16 + ?n div 16) * 16 + ?n mod 16 = ?n" by simp
    with 8 d show ?thesis
      by (simp add: escape_char_def hex_val_char hex_val_zero)
  next
    case 9
    then show ?thesis by (simp add: escape_char_def)
  qed (simp_all add: escape_char_def)
qed

lemma unquote_quoted:
  "unquote (concat (map escape_char s) @ CHR 0x22 # r) = Some (s, r)"
  by (induction s) (simp_all add: unquote_escape_char)

lemma stringify_JArr: "stringify (JArr vs) = Some (''['' @ intercalate '','' (map text_of vs) @ '']'')"
proof -
  have "(\<lambda>v. case stringify v of None \<Rightarrow> ''null'' | Some t \<Rightarrow> t) = text_of"
    by (simp add: text_of_def fun_eq_iff)
  then show ?thesis by simp
qed

lemma members_eq:
  "concat (map (\<lambda>(k, v). case stringify v of None \<Rightarrow> [] | Some t \<Rightarrow> [quote k @ '':'' @ t]) fs)
     = map member_text (filter (\<lambda>p. stringify (snd p) \<noteq> None) fs)"
  by (induction fs) (auto simp: member_text_def text_of_def split: option.splits)

lemma stringify_None: "stringify v = None \<longleftrightarrow> v = JUndefined"
  by (cases v) simp_all

lemma stringify_JObj:
  "stringify (JObj fs) =
     Some (''{'' @ intercalate '','' (map member_text (filter (\<lambda>p. snd p \<noteq> JUndefined) fs)) @ ''}'')"
  by (simp add: members_eq stringify_None)

lemma text_of_start: "stringify v = Some t \<Longrightarrow> t \<noteq> [] \<and> value_start (hd t)"
  using show_nat_hd_digit show_nat_nonempty
  by (cases v) (auto simp: value_start_def quote_def show_int_def split: if_splits)

lemma ok_rest_sep [simp]:
  "ok_rest (CHR '','' # r)" "ok_rest (CHR '']'' # r)" "ok_rest (CHR ''}'' # r)" "ok_rest []"
  by (simp_all add: ok_rest_def is_digit_def)

lemma parse_elems_roundtrip:
  assumes "\<forall>v \<in> set vs. roundtrips v" and "vs \<noteq> []"
    and "2 * length (intercalate '','' (map text_of vs) @ CHR '']'' # r) + 1 < f"
  shows "parse_elems f (intercalate '','' (map text_of vs) @ CHR '']'' # r)
           = Some (map defined_fields vs, r)"
  using assms
proof (induction vs arbitrary: f)
  case Nil
  then show ?case by simp
next
  case (Cons v vs)
  from Cons.prems(3) obtain g where f: "f = Suc g" by (cases f) auto
  from Cons.prems(1) have rv: "roundtrips v" by simp
  show ?case
  proof (cases vs)
    case Nil
    have "parse_value g (text_of v @ CHR '']'' # r) = Some (defined_fields v, CHR '']'' # r)"
      using rv Cons.prems(3) Nil f by (simp add: roundtrips_def)
    with Nil f show ?thesis by simp
  next
    case (Cons w ws)
    let ?more = "intercalate '','' (map text_of vs) @ CHR '']'' # r"
    have "parse_value g (text_of v @ CHR '','' # ?more) = Some (defined_fields v, CHR '','' # ?more)"
      using rv Cons.prems(3) Cons f by (simp add: roundtrips_def)
    moreover have "parse_elems g ?more = Some (map defined_fields vs, r)"
      using Cons.prems Cons f by (intro Cons.IH) auto
    ultimately show ?thesis
      using Cons f by simp
  qed
qed

lemma text_of_JArr: "text_of (JArr vs) = CHR ''['' # intercalate '','' (map text_of vs) @ '']''"
  using stringify_JArr [of vs] by (simp add: text_of_def)

lemma text_of_JObj:
  "text_of (JObj fs) =
     CHR ''{'' # intercalate '','' (map member_text (filter (\<lambda>p. snd p \<noteq> JUndefined) fs)) @ ''}''"
  using stringify_JObj [of fs] by (simp add: text_of_def)

lemma member_text_length: "length (member_text p) = length (quote (fst p)) + 1 + length (text_of (snd p))"
  by (simp add: member_text_def)

lemma parse_members_step:
  assumes "parse_value g (text_of (snd p) @ d # rest) = Some (x, d # rest)"
  shows "parse_members (Suc g) (member_text p @ d # rest) =
     (if d = CHR '','' then map_option (\<lambda>(ps, t). ((fst p, x) # ps, t)) (parse_members g rest)
      else if d = CHR ''}'' then Some ([(fst p, x)], rest)
      else None)"
  using assms by (simp add: member_text_def quote_def unquote_quoted)

lemma parse_members_roundtrip:
  assumes "\<forall>p \<in> set ps. roundtrips (snd p)" and "ps \<noteq> []"
    and "2 * length (intercalate '','' (map member_text ps) @ CHR ''}'' # r) + 1 < f"
  shows "parse_members f (intercalate '','' (map member_text ps) @ CHR ''}'' # r)
           = Some (map (\<lambda>p. (fst p, defined_fields (snd p))) ps, r)"
  using assms
proof (induction ps arbitrary: f)
  case Nil
  then show ?case by simp
next
  case (Cons p ps)
  from Cons.prems(3) obtain g where f: "f = Suc g" by (cases f) auto
  from Cons.prems(1) have rv: "roundtrips (snd p)" by simp
  show ?case
  proof (cases ps)
    case Nil
    have "2 * length (text_of (snd p) @ CHR ''}'' # r) < g"
      using Cons.prems(3) Nil f by (simp add: member_text_length)
    with rv have "parse_value g (text_of (snd p) @ CHR ''}'' # r)
        = Some (defined_fields (snd p), CHR ''}'' # r)"
      by (simp add: roundtrips_def)
    from parse_members_step [OF this] Nil f show ?thesis by simp
  next
    case (Cons q qs)
    let ?more = "intercalate '','' (map member_text ps) @ CHR ''}'' # r"
    have whole: "intercalate '','' (map member_text (p # ps)) @ CHR ''}'' # r
        = member_text p @ CHR '','' # ?more"
      using Cons by simp
    have "2 * length (text_of (snd p) @ CHR '','' # ?more) < g"
      using Cons.prems(3) f unfolding whole by (simp add: member_text_length)
    with rv have "parse_value g (text_of (snd p) @ CHR '','' # ?more)
        = Some (defined_fields (snd p), CHR '','' # ?more)"
      by (simp add: roundtrips_def)
    note step = parse_members_step [OF this]
    have "2 * length ?more + 1 < g"
      using Cons.prems(3) f unfolding whole by (simp add: member_text_length)
    with Cons.prems Cons have "parse_members g ?more
        = Some (map (\<lambda>p. (fst p, defined_fields (snd p))) ps, r)"
      by (intro Cons.IH) auto
    with step show ?thesis
      unfolding whole f by simp
  qed
qed

lemma update_absent: "k \<notin> fst ` set al \<Longrightarrow> AList.update k v al = al @ [(k, v)]"
  by (induction al) auto

lemma foldl_update_distinct:
  "distinct (map fst ps) \<Longrightarrow> fst ` set acc \<inter> fst ` set ps = {}
   \<Longrightarrow> foldl (\<lambda>acc (k, v). AList.update k v acc) acc ps = acc @ ps"
proof (induction ps arbitrary: acc)
  case Nil
  then show ?case by simp
next
  case (Cons p ps)
  obtain k v where p: "p = (k, v)" by (cases p)
  from Cons.prems p have "k \<notin> fst ` set acc" by auto
  then have u: "AList.update k v acc = acc @ [(k, v)]" by (rule update_absent)
  have "foldl (\<lambda>acc (k, v). AList.update k v acc) (acc @ [(k, v)]) ps = (acc @ [(k, v)]) @ ps"
    using Cons.prems p by (intro Cons.IH) auto
  with u p show ?case by simp
qed

lemma value_start_not_close:
  "value_start c \<Longrightarrow> c \<noteq> CHR '']'' \<and> c \<noteq> CHR ''}''"
  by (auto simp: value_start_def is_digit_def)

lemma intercalate_hd:
  "xs \<noteq> [] \<Longrightarrow> hd xs \<noteq> [] \<Longrightarrow> hd (intercalate sep xs @ r) = hd (hd xs)"
proof (cases xs)
  case Nil
  then show "xs \<noteq> [] \<Longrightarrow> ?thesis" by simp
next
  case (Cons x ys)
  then show "hd xs \<noteq> [] \<Longrightarrow> ?thesis" by (cases ys) simp_all
qed

lemma roundtrips_JArr:
  assumes "\<forall>v \<in> set vs. roundtrips v" and "\<forall>v \<in> set vs. v \<noteq> JUndefined"
  shows "roundtrips (JArr vs)"
  unfolding roundtrips_def
proof (intro allI impI)
  fix f r
  assume "ok_rest r" and len: "2 * length (text_of (JArr vs) @ r) < f"
  then obtain g where f: "f = Suc g" by (cases f) auto
  show "parse_value f (text_of (JArr vs) @ r) = Some (defined_fields (JArr vs), r)"
  proof (cases vs)
    case Nil
    with f show ?thesis by (simp add: text_of_JArr)
  next
    case (Cons w ws)
    let ?body = "intercalate '','' (map text_of vs) @ CHR '']'' # r"
    from assms(2) Cons obtain t where "stringify w = Some t"
      by (cases "stringify w") (auto simp: stringify_None)
    then have "text_of w \<noteq> []" "value_start (hd (text_of w))"
      using text_of_start [of w t] by (simp_all add: text_of_def)
    then have "hd ?body \<noteq> CHR '']''"
      using Cons value_start_not_close [of "hd (text_of w)"] by (simp add: intercalate_hd)
    moreover have "?body \<noteq> []" by simp
    ultimately obtain d rest where b: "?body = d # rest" "d \<noteq> CHR '']''"
      by (cases ?body) auto
    have "2 * length ?body + 1 < g"
      using len f by (simp add: text_of_JArr)
    with assms(1) Cons have "parse_elems g ?body = Some (map defined_fields vs, r)"
      by (intro parse_elems_roundtrip) auto
    with b f show ?thesis
      by (simp add: text_of_JArr)
  qed
qed

lemma roundtrips_JObj:
  assumes "\<forall>p \<in> set fs. snd p \<noteq> JUndefined \<longrightarrow> roundtrips (snd p)"
    and "distinct (map fst fs)"
  shows "roundtrips (JObj fs)"
  unfolding roundtrips_def
proof (intro allI impI)
  fix f r
  assume "ok_rest r" and len: "2 * length (text_of (JObj fs) @ r) < f"
  then obtain g where f: "f = Suc g" by (cases f) auto
  define ps where "ps = filter (\<lambda>p. snd p \<noteq> JUndefined) fs"
  have s: "text_of (JObj fs) = CHR ''{'' # intercalate '','' (map member_text ps) @ ''}''"
    by (simp add: text_of_JObj ps_def)
  have d: "defined_fields (JObj fs) = JObj (map (\<lambda>p. (fst p, defined_fields (snd p))) ps)"
    by (simp add: ps_def)
  show "parse_value f (text_of (JObj fs) @ r) = Some (defined_fields (JObj fs), r)"
  proof (cases ps)
    case Nil
    with f show ?thesis unfolding s d by simp
  next
    case (Cons q qs)
    let ?body = "intercalate '','' (map member_text ps) @ CHR ''}'' # r"
    have "hd ?body = CHR 0x22"
      using Cons by (simp add: intercalate_hd member_text_def quote_def)
    moreover have "?body \<noteq> []" by simp
    ultimately obtain c rest where b: "?body = c # rest" "c \<noteq> CHR ''}''"
      by (cases ?body) auto
    have "2 * length ?body + 1 < g"
      using len f by (simp add: s)
    moreover have "\<forall>p \<in> set ps. roundtrips (snd p)"
      using assms(1) by (auto simp: ps_def)
    ultimately have "parse_members g ?body
        = Some (map (\<lambda>p. (fst p, defined_fields (snd p))) ps, r)"
      using Cons by (intro parse_members_roundtrip) auto
    moreover have "distinct (map fst (map (\<lambda>p. (fst p, defined_fields (snd p))) ps))"
      using assms(2) by (simp add: ps_def comp_def distinct_map_filter)
    then have "foldl (\<lambda>acc (k, v). AList.update k v acc) []
        (map (\<lambda>p. (fst p, defined_fields (snd p))) ps)
        = map (\<lambda>p. (fst p, defined_fields (snd p))) ps"
      using foldl_update_distinct [of "map (\<lambda>p. (fst p, defined_fields (snd p))) ps" "[]"]
      by simp
    ultimately show ?thesis
      using b f unfolding s d by simp
  qed
qed

lemma roundtrips_serializable: "serializable v \<Longrightarrow> roundtrips v"
proof (induction v)
  case JUndefined
  then show ?case by simp
next
  case JNull
  show ?case
    unfolding roundtrips_def
  proof (intro allI impI)
    fix f r assume "2 * length (text_of JNull @ r) < f"
    then obtain g where "f = Suc g" by (cases f) auto
    then show "parse_value f (text_of JNull @ r) = Some (defined_fields JNull, r)"
      by (simp add: text_of_def expect_def)
  qed
next
  case (JBool b)
  show ?case
    unfolding roundtrips_def
  proof (intro allI impI)
    fix f r assume "2 * length (text_of (JBool b) @ r) < f"
    then obtain g where "f = Suc g" by (cases f) auto
    then show "parse_value f (text_of (JBool b) @ r) = Some (defined_fields (JBool b), r)"
      by (cases b) (simp_all add: text_of_def expect_def)
  qed
next
  case (JNum n)
  show ?case
    unfolding roundtrips_def
  proof (intro allI impI)
    fix f r assume r: "ok_rest r" and "2 * length (text_of (JNum n) @ r) < f"
    then obtain g where f: "f = Suc g" by (cases f) auto
    obtain c cs where s: "show_int n = c # cs"
      using show_nat_nonempty by (cases "show_int n") (auto simp: show_int_def split: if_splits)
    have "c = CHR ''-'' \<or> is_digit c"
      using s show_nat_hd_digit [of "nat n"] show_nat_nonempty [of "nat n"]
      by (auto simp: show_int_def split: if_splits)
    then have c: "c \<noteq> CHR ''n''" "c \<noteq> CHR ''t''" "c \<noteq> CHR ''f''" "c \<noteq> CHR 0x22"
      "c \<noteq> CHR ''[''" "c \<noteq> CHR ''{''"
      by (auto simp: is_digit_def)
    have "parse_value f (show_int n @ r) = parse_number (show_int n @ r)"
      using c f by (simp add: s)
    then show "parse_value f (text_of (JNum n) @ r) = Some (defined_fields (JNum n), r)"
      using r by (simp add: text_of_def parse_number_show)
  qed
next
  case (JStr x)
  show ?case
    unfolding roundtrips_def
  proof (intro allI impI)
    fix f r assume "2 * length (text_of (JStr x) @ r) < f"
    then obtain g where "f = Suc g" by (cases f) auto
    then show "parse_value f (text_of (JStr x) @ r) = Some (defined_fields (JStr x), r)"
      by (simp add: text_of_def quote_def unquote_quoted)
  qed
next
  case (JArr vs)
  then show ?case
    by (intro roundtrips_JArr) auto
next
  case (JObj fs)
  show ?case
  proof (rule roundtrips_JObj)
    show "\<forall>p \<in> set fs. snd p \<noteq> JUndefined \<longrightarrow> roundtrips (snd p)"
    proof (intro ballI impI)
      fix p assume p: "p \<in> set fs" "snd p \<noteq> JUndefined"
      with JObj.prems have "serializable (snd p)" by auto
      moreover have "snd p \<in> Basic_BNFs.snds p" by (cases p) simp
      ultimately show "roundtrips (snd p)" using JObj.IH p(1) by blast
    qed
    show "distinct (map fst fs)" using JObj.prems by simp
  qed
qed

lemma parse_stringify:
  assumes "serializable v"
  shows "stringify v \<noteq> None \<and> parse (the (stringify v)) = Some (defined_fields v)"
proof -
  from assms have n: "stringify v \<noteq> None" by (cases v) simp_all
  then have t: "the (stringify v) = text_of v" by (auto simp: text_of_def)
  have "roundtrips v" using assms by (rule roundtrips_serializable)
  then have "ok_rest [] \<longrightarrow> 2 * length (text_of v @ []) < 2 * length (text_of v) + 1
      \<longrightarrow> parse_value (2 * length (text_of v) + 1) (text_of v @ []) = Some (defined_fields v, [])"
    unfolding roundtrips_def by blast
  then have "parse_value (2 * length (text_of v) + 1) (text_of v) = Some (defined_fields v, [])"
    by simp
  with n t show ?thesis by (simp add: parse_def)
qed

lemma storage_text_roundtrip:
  assumes "serializable (JObj fs)"
  shows "storage_get_text key (storage_set_text key (JObj fs) ls) = Some (defined_fields (JObj fs))"
proof -
  obtain t where t: "stringify (JObj fs) = Some t" by simp
  then have "t \<noteq> []" by auto
  with t show ?thesis
    using parse_stringify [OF assms]
    by (simp add: storage_get_text_def storage_set_text_def getItem_or_def AList.update_conv'
        js_or_def truthy_def)
qed

lemma not_index_like: "k \<noteq> [] \<Longrightarrow> \<not> is_digit (hd k) \<Longrightarrow> \<not> index_like k"
  by (cases k) (auto simp: index_like_def)

lemma json_of_serializable:
  assumes "case weight r of None \<Rightarrow> True | Some w \<Rightarrow> safe_integer w"
  shows "serializable (json_of r)"
  using assms
  by (auto simp: json_of_def opt_def not_index_like is_digit_def split: option.splits select_t.splits)

lemma map_of_defined:
  "distinct (map fst fs) \<Longrightarrow>
   map_of (map (\<lambda>p. (fst p, defined_fields (snd p))) (filter (\<lambda>p. snd p \<noteq> JUndefined) fs)) k
     = (case map_of fs k of None \<Rightarrow> None | Some v \<Rightarrow> present v)"
proof (induction fs)
  case Nil
  then show ?case by simp
next
  case (Cons p fs)
  obtain a v where p: "p = (a, v)" by (cases p)
  show ?case
  proof (cases "a = k")
    case True
    with Cons.prems p have "map_of fs k = None"
      by (simp add: map_of_eq_None_iff)
    with Cons p True show ?thesis by (simp add: present_def)
  next
    case False
    with Cons p show ?thesis by simp
  qed
qed

lemma present_opt:
  "as_num (present (opt JNum w)) = w"
  "as_str (present (opt JStr x)) = x"
  "as_strs (present (opt (\<lambda>ms. JArr (map JStr ms)) ms)) = ms"
  "as_role (present (opt (\<lambda>x. JStr (role_text x)) ro)) = ro"
  "as_task (present (opt (\<lambda>i. JObj [(''id'', JStr i), (''result'', JObj [])]) t)) = t"
  by (auto simp: present_def opt_def as_num_def as_str_def as_strs_def as_role_def as_task_def
      role_text_def comp_def split: option.splits role.splits)

lemma present_select:
  "as_select (present (case sl of Undefined \<Rightarrow> JUndefined | Null \<Rightarrow> JNull | Sel x \<Rightarrow> JStr x)) = sl"
  by (cases sl) (simp_all add: present_def as_select_def)

lemma present_meta:
  "as_meta (present (opt (\<lambda>m. JObj [(''model'', opt JStr (model m)), (''error'', opt JStr (error m))]) me))
     = me"
proof (cases me)
  case None
  then show ?thesis by (simp add: present_def opt_def as_meta_def)
next
  case (Some m)
  have "as_str (present (opt JStr (model m))) = model m"
    "as_str (present (opt JStr (error m))) = error m"
    by (rule present_opt)+
  then show ?thesis
    using Some
    by (cases "model m"; cases "error m")
      (simp_all add: present_def opt_def as_meta_def as_str_def)
qed

lemma msg_of_json_of: "msg_of (defined_fields (json_of r)) = r"
proof -
  have d: "distinct (map fst [(''weight'', a), (''content'', b), (''messages'', c), (''select'', d),
      (''meta'', e), (''role'', f), (''id'', g), (''task'', h)])" for a b c d e f g h :: jsval
    by simp
  show ?thesis
    by (simp add: msg_of_def json_of_def map_of_defined [OF d] present_opt present_select
        present_meta del: map_of.simps filter.simps list.map)
      (simp add: present_opt present_select present_meta)
qed

text \<open>
  Claim C10. For every key and every record \<open>JObj fs\<close> that JSON serialises exactly,
  \<open>set\<close> followed by \<open>get\<close> yields the record restricted to its defined properties,
  whatever \<open>localStorage\<close> held. In particular every node record \<open>r\<close> (its weight a
  safe integer) is read back as it was written.
\<close>

theorem storage_roundtrip:
  assumes "serializable (JObj fs)"
    and "case weight r of None \<Rightarrow> True | Some w \<Rightarrow> safe_integer w"
  shows "storage_get_text key (storage_set_text key (JObj fs) ls)
           = Some (defined_fields (JObj fs))
       \<and> map_option msg_of (storage_get_text key (storage_set_text key (json_of r) ls)) = Some r"
proof -
  have "serializable (json_of r)"
    using assms(2) by (rule json_of_serializable)
  then have "storage_get_text key (storage_set_text key (json_of r) ls)
      = Some (defined_fields (json_of r))"
    unfolding json_of_def by (rule storage_text_roundtrip)
  then show ?thesis
    using storage_text_roundtrip [OF assms(1)] by (simp add: msg_of_json_of)
qed

theorem storage_roundtrip_witness:
  \<open>serializable (JObj [(''content'', JStr ''hi''), (''select'', JNull), (''task'', JUndefined)])
   \<and> storage_set_text ''#uuuu''
        (JObj [(''content'', JStr ''hi''), (''select'', JNull), (''task'', JUndefined)]) []
       = [(''#uuuu'', ''{"content":"hi","select":null}'')]
   \<and> storage_get_text ''#uuuu'' (storage_set_text ''#uuuu''
        (JObj [(''content'', JStr ''hi''), (''select'', JNull), (''task'', JUndefined)]) [])
       = Some (JObj [(''content'', JStr ''hi''), (''select'', JNull)])
   \<and> map_option msg_of
        (storage_get_text ''#uuuu'' (storage_set_text ''#uuuu'' (json_of user_record) []))
       = Some user_record\<close>
  using storage_roundtrip [of "[(''content'', JStr ''hi''), (''select'', JNull), (''task'', JUndefined)]"
      user_record "''#uuuu''" "[]"]
  by (simp add: user_record_def empty_msg_def safe_integer_def index_like_def is_digit_def
      storage_set_text_def quote_def escape_char_def)

end
